theory Spec2Isabelle
  imports Complex_Main "HOL-Library.Word"
begin

section \<open>Machine integers and the configuration of lighthouse's display.c\<close>

text \<open>
  display.c counts and positions everything in 32-bit machine integers: the fields of
  \<^verbatim>\<open>offset_t\<close>, \<^verbatim>\<open>max_results\<close>, \<^verbatim>\<open>display_results\<close>, the line index and the cursor index
  are \<^verbatim>\<open>uint32_t\<close>, the loop counters and \<^verbatim>\<open>cursor_x\<close> are \<^verbatim>\<open>int32_t\<close>. Both are
  \<open>32 word\<close> here: \<open>+\<close>, \<open>-\<close> and \<open>*\<close> wrap, \<open><\<close> compares unsigned (as C does once one
  operand is \<^verbatim>\<open>uint32_t\<close>), and \<open>sint\<close> reads a word as the \<^verbatim>\<open>int32_t\<close> it stands for.
\<close>

type_synonym u32 = "32 word"

text \<open>A \<^verbatim>\<open>char *\<close> that may be \<^verbatim>\<open>NULL\<close>: \<open>None\<close> is the null pointer.\<close>

type_synonym cstr = "string option"

text \<open>
  Modelled from the spec: the declarations of \<^verbatim>\<open>settings\<close> and \<^verbatim>\<open>global\<close> (globals.h) and
  of \<^verbatim>\<open>color_t\<close>, \<^verbatim>\<open>draw_t\<close> and \<^verbatim>\<open>image_format_t\<close> (display.h) are not part of display.c.
  The records below hold the fields display.c reads and writes (the spec names them
  Color, Token, ImageFormat and ViewportState); the integer fields are taken as
  \<^verbatim>\<open>uint32_t\<close>, the type display.c gives to every quantity it computes from them. Where
  two C structs share a field name, the record fields carry a short prefix. The token
  types are the four that the switches of display.c name; \<open>OTHER\<close> stands for any further
  value of the enumeration, which the switches send to \<^verbatim>\<open>default\<close>.
\<close>

record color_t =
  col_r :: real
  col_g :: real
  col_b :: real

record settings_t =
  width :: u32
  height :: u32
  max_height :: u32
  horiz_padding :: u32
  font_size :: u32
  desc_size :: u32
  cursor_padding :: u32
  cursor_is_underline :: bool
  query_fg :: color_t
  query_bg :: color_t

record global_t =
  result_count :: u32
  result_highlight :: u32
  result_offset :: u32
  real_font_size :: u32

datatype draw_type = DRAW_IMAGE | BOLD | NEW_LINE | DRAW_TEXT | OTHER

record draw_t =
  d_type :: draw_type
  d_data :: cstr

record image_format_t =
  img_width :: u32
  img_height :: u32

text \<open>The struct \<^verbatim>\<open>offset_t\<close> of lines 17-21.\<close>

record offset_t =
  off_x :: u32
  off_y :: u32
  off_image_y :: u32

text \<open>The macro \<^verbatim>\<open>#define min(a,b) ((a) < (b) ? (a) : (b))\<close>.\<close>

definition min_macro :: "u32 \<Rightarrow> u32 \<Rightarrow> u32" where
  "min_macro a b = (if a < b then a else b)"

section \<open>The cairo context and the platform\<close>

text \<open>
  display.c draws through a cairo context \<^verbatim>\<open>cr\<close>. The context is the list of drawing
  calls issued on it so far, one constructor per cairo function display.c calls, with
  the arguments as C evaluates them before they are converted to \<^verbatim>\<open>double\<close>: \<open>uint\<close> of an
  unsigned expression, \<open>sint\<close> of a signed one. A surface is named by the file it was
  loaded from and the size it was scaled to.
\<close>

datatype font_weight = CAIRO_FONT_WEIGHT_NORMAL | CAIRO_FONT_WEIGHT_BOLD

datatype cairo_call =
    cairo_set_source_rgb color_t
  | cairo_rectangle int int int int
  | cairo_stroke_preserve
  | cairo_fill
  | cairo_select_font_face font_weight
  | cairo_set_font_size u32
  | cairo_move_to int int
  | cairo_show_text cstr
  | cairo_set_source_surface cstr image_format_t int int
  | cairo_mask_surface cstr image_format_t int int

type_synonym cairo_t = "cairo_call list"

text \<open>The fields of \<^verbatim>\<open>cairo_text_extents_t\<close> that display.c reads, both \<^verbatim>\<open>double\<close>.\<close>

record 'd cairo_text_extents_t =
  ext_width :: 'd
  ext_x_advance :: 'd

text \<open>
  Everything display.c calls and does not define is a field of the platform:
  \<^item> \<open>cairo_text_extents\<close> measures a string under the font the context has selected, so
    it reads the context;
  \<^item> \<open>parse_result_line\<close> is the tokenizer (\<^verbatim>\<open>parse_result_line(cr, &c, budget)\<close>): from the
    rest of the text and the width left it yields the next token and the rest after
    it. display.c reads \<^verbatim>\<open>*c\<close> right after the call (lines 233 and 279), so it relies
    on a cursor that is not null: the rest is a string;
  \<^item> \<open>wordexp\<close> yields \<^verbatim>\<open>we_wordv[0]\<close>, or \<open>None\<close> when it returns non-zero;
  \<^item> \<open>access\<close> is \<^verbatim>\<open>access(file, F_OK) != -1\<close>;
  \<^item> \<open>png_size\<close> is \<^verbatim>\<open>cairo_image_surface_create_from_png\<close> read through
    \<^verbatim>\<open>cairo_image_surface_get_width\<close> and \<^verbatim>\<open>_get_height\<close>; \<open>None\<close> is the error surface
    cairo returns for a file it cannot read or decode, whose width and height read 0;
  \<^item> the arithmetic of \<^verbatim>\<open>double\<close> (type \<open>'d\<close>) and \<^verbatim>\<open>float\<close> (type \<open>'f\<close>) and their
    conversions from and to the 32-bit integers. No property below rests on how the
    platform rounds.
\<close>

record ('d, 'f) platform =
  cairo_text_extents :: "cairo_t \<Rightarrow> cstr \<Rightarrow> 'd cairo_text_extents_t"
  parse_result_line :: "cairo_t \<Rightarrow> string \<Rightarrow> u32 \<Rightarrow> draw_t \<times> string"
  wordexp :: "cstr \<Rightarrow> cstr option"
  access :: "cstr \<Rightarrow> bool"
  png_size :: "cstr \<Rightarrow> (u32 \<times> u32) option"
  double_of_u32 :: "u32 \<Rightarrow> 'd"
  double_sub :: "'d \<Rightarrow> 'd \<Rightarrow> 'd"
  double_less :: "'d \<Rightarrow> 'd \<Rightarrow> bool"
  u32_of_double :: "'d \<Rightarrow> u32"
  i32_of_double :: "'d \<Rightarrow> u32"
  float_of_u32 :: "u32 \<Rightarrow> 'f"
  float_div :: "'f \<Rightarrow> 'f \<Rightarrow> 'f"
  float_mul :: "'f \<Rightarrow> 'f \<Rightarrow> 'f"
  float_less :: "'f \<Rightarrow> 'f \<Rightarrow> bool"
  u32_of_float :: "'f \<Rightarrow> u32"

section \<open>Offsets and the query line\<close>

text \<open>\<^verbatim>\<open>calculate_line_offset\<close>, lines 28-40.\<close>

definition calculate_line_offset :: "settings_t \<Rightarrow> global_t \<Rightarrow> u32 \<Rightarrow> offset_t" where
  "calculate_line_offset S G line =
     \<lparr>off_x = horiz_padding S,
      off_y = height S * line + real_font_size G,
      off_image_y = height S * line\<rparr>"

text \<open>
  Lines 92-113 of \<^verbatim>\<open>draw_typed_line\<close>: the text origin and the cursor position. \<open>cr\<close> is
  the context after the font face was selected. The prefix measured first is the text
  cut at the cursor (line 96 writes the terminator there; a cursor past the end of the
  text writes out of bounds in C, and measures the whole text here). \<^verbatim>\<open>cursor_x\<close> is an
  \<^verbatim>\<open>int32_t\<close>; adding the unsigned \<^verbatim>\<open>offset.x\<close> to it wraps.
\<close>

definition typed_line_origin ::
  "('d, 'f) platform \<Rightarrow> settings_t \<Rightarrow> global_t \<Rightarrow> cairo_t \<Rightarrow> string \<Rightarrow> u32 \<Rightarrow> offset_t" where
  "typed_line_origin P S G cr text line =
     (let offset = calculate_line_offset S G line;
          extents = cairo_text_extents P cr (Some text)
      in if double_less P (double_of_u32 P (width S)) (ext_width extents)
         then offset\<lparr>off_x := u32_of_double P
                (double_sub P (double_of_u32 P (width S)) (ext_x_advance extents))\<rparr>
         else offset)"

definition typed_line_cursor ::
  "('d, 'f) platform \<Rightarrow> settings_t \<Rightarrow> global_t \<Rightarrow> cairo_t \<Rightarrow> string \<Rightarrow> u32 \<Rightarrow> u32
     \<Rightarrow> offset_t \<times> u32" where
  "typed_line_cursor P S G cr text line cursor =
     (let extents = cairo_text_extents P cr (Some (take (unat cursor) text));
          cursor_x = i32_of_double P (ext_x_advance extents);
          offset = typed_line_origin P S G cr text line;
          cursor_x = cursor_x + off_x offset
      in if sint cursor_x < 0
         then (offset\<lparr>off_x := off_x offset - (cursor_x - 3)\<rparr>, 0)
         else (offset, cursor_x))"

text \<open>
  \<^verbatim>\<open>draw_typed_line\<close>, lines 79-132: the new context, with the origin and the cursor
  position it drew at. (The mutex it holds while drawing orders concurrent redraws and
  is not modelled.)
\<close>

definition draw_typed_line ::
  "('d, 'f) platform \<Rightarrow> settings_t \<Rightarrow> global_t \<Rightarrow> cairo_t \<Rightarrow> string \<Rightarrow> u32 \<Rightarrow> u32
     \<Rightarrow> color_t \<Rightarrow> color_t \<Rightarrow> offset_t \<times> u32 \<times> cairo_t" where
  "draw_typed_line P S G cr text line cursor foreground background =
     (let cr1 = cr @ [cairo_set_source_rgb background,
                      cairo_rectangle 0 (uint (line * height S)) (uint (width S))
                        (uint ((line + 1) * height S)),
                      cairo_stroke_preserve, cairo_fill,
                      cairo_set_source_rgb foreground,
                      cairo_select_font_face CAIRO_FONT_WEIGHT_NORMAL];
          (offset, cursor_x) = typed_line_cursor P S G cr1 text line cursor;
          cr2 = cr1 @ [cairo_move_to (uint (off_x offset)) (uint (off_y offset)),
                       cairo_set_font_size (font_size S),
                       cairo_show_text (Some text)];
          cr3 = (if cursor_is_underline S
                 then cr2 @ [cairo_show_text (Some ''_'')]
                 else (let cursor_y = off_y offset - font_size S - cursor_padding S
                       in cr2 @ [cairo_set_source_rgb foreground,
                                 cairo_rectangle (sint (cursor_x + 2)) (uint cursor_y) 0
                                   (uint (font_size S + cursor_padding S * 2)),
                                 cairo_stroke_preserve, cairo_fill]))
      in (offset, cursor_x, cr3))"

text \<open>\<^verbatim>\<open>draw_query_text\<close>, lines 317-320: the query is line 0, in the query colours.\<close>

definition draw_query_text ::
  "('d, 'f) platform \<Rightarrow> settings_t \<Rightarrow> global_t \<Rightarrow> cairo_t \<Rightarrow> string \<Rightarrow> u32
     \<Rightarrow> offset_t \<times> u32 \<times> cairo_t" where
  "draw_query_text P S G cr text cursor =
     draw_typed_line P S G cr text 0 cursor (query_fg S) (query_bg S)"

section \<open>Drawing one token\<close>

text \<open>
  \<^verbatim>\<open>draw_text\<close>, lines 141-150: the advance and the new context. The extents are measured
  before the font face and size are set, as in the source.
\<close>

definition draw_text ::
  "('d, 'f) platform \<Rightarrow> settings_t \<Rightarrow> cairo_t \<Rightarrow> cstr \<Rightarrow> offset_t \<Rightarrow> color_t \<Rightarrow> font_weight
     \<Rightarrow> u32 \<times> cairo_t" where
  "draw_text P S cr text offset foreground weight =
     (let extents = cairo_text_extents P cr text
      in (u32_of_double P (ext_x_advance extents),
          cr @ [cairo_move_to (uint (off_x offset)) (uint (off_y offset)),
                cairo_set_source_rgb foreground,
                cairo_select_font_face weight,
                cairo_set_font_size (font_size S),
                cairo_show_text text]))"

text \<open>The macro \<^verbatim>\<open>min\<close> on \<^verbatim>\<open>float\<close>, as line 185 uses it.\<close>

definition float_min :: "('d, 'f) platform \<Rightarrow> 'f \<Rightarrow> 'f \<Rightarrow> 'f" where
  "float_min P a b = (if float_less P a b then a else b)"

text \<open>Lines 183-196 of \<^verbatim>\<open>draw_image\<close>: the size an image of natural size \<open>format\<close> is drawn at.\<close>

definition scale_format :: "('d, 'f) platform \<Rightarrow> image_format_t \<Rightarrow> u32 \<Rightarrow> u32 \<Rightarrow> image_format_t" where
  "scale_format P format win_size_x win_size_y =
     (if win_size_x < img_width format \<or> win_size_y < img_height format
      then (let prop = float_min P
                  (float_div P (float_of_u32 P win_size_x) (float_of_u32 P (img_width format)))
                  (float_div P (float_of_u32 P win_size_y) (float_of_u32 P (img_height format)))
            in \<lparr>img_width = u32_of_float P (float_mul P prop (float_of_u32 P (img_width format))),
                img_height = u32_of_float P (float_mul P prop (float_of_u32 P (img_height format)))\<rparr>)
      else format)"

text \<open>Lines 165-169: the path after expansion; a failed expansion keeps the path.\<close>

definition expanded_file :: "('d, 'f) platform \<Rightarrow> cstr \<Rightarrow> cstr" where
  "expanded_file P file = (case wordexp P file of None \<Rightarrow> file | Some f \<Rightarrow> f)"

text \<open>
  Lines 179-181: the size \<^verbatim>\<open>cairo_image_surface_get_width\<close> and \<^verbatim>\<open>_get_height\<close> report
  for the surface loaded from a file.
\<close>

definition natural_format :: "('d, 'f) platform \<Rightarrow> cstr \<Rightarrow> image_format_t" where
  "natural_format P file =
     (case png_size P file of
        None \<Rightarrow> \<lparr>img_width = 0, img_height = 0\<rparr>
      | Some (w, h) \<Rightarrow> \<lparr>img_width = w, img_height = h\<rparr>)"

text \<open>\<^verbatim>\<open>draw_image\<close>, lines 161-203: the format drawn and the new context.\<close>

definition draw_image ::
  "('d, 'f) platform \<Rightarrow> cairo_t \<Rightarrow> cstr \<Rightarrow> offset_t \<Rightarrow> u32 \<Rightarrow> u32 \<Rightarrow> image_format_t \<times> cairo_t" where
  "draw_image P cr file offset win_size_x win_size_y =
     (let file' = expanded_file P file
      in if \<not> access P file'
         then (\<lparr>img_width = 0, img_height = 0\<rparr>, cr)
         else (let format = scale_format P (natural_format P file') win_size_x win_size_y
               in (format,
                   cr @ [cairo_set_source_surface file' format
                           (uint (off_x offset)) (uint (off_image_y offset)),
                         cairo_mask_surface file' format
                           (uint (off_x offset)) (uint (off_image_y offset))])))"

section \<open>A result line\<close>

text \<open>The switch of \<^verbatim>\<open>draw_line\<close>, lines 235-250.\<close>

definition draw_line_token ::
  "('d, 'f) platform \<Rightarrow> settings_t \<Rightarrow> color_t \<Rightarrow> draw_t \<Rightarrow> offset_t \<Rightarrow> cairo_t
     \<Rightarrow> offset_t \<times> cairo_t" where
  "draw_line_token P S foreground d offset cr =
     (case d_type d of
        DRAW_IMAGE \<Rightarrow>
          (let (format, cr') = draw_image P cr (d_data d) offset (width S - off_x offset) (height S)
           in (offset\<lparr>off_x := off_x offset + img_width format\<rparr>, cr'))
      | BOLD \<Rightarrow>
          (let (adv, cr') = draw_text P S cr (d_data d) offset foreground CAIRO_FONT_WEIGHT_BOLD
           in (offset\<lparr>off_x := off_x offset + adv\<rparr>, cr'))
      | NEW_LINE \<Rightarrow> (offset, cr)
      | _ \<Rightarrow>
          (let (adv, cr') = draw_text P S cr (d_data d) offset foreground CAIRO_FONT_WEIGHT_NORMAL
           in (offset\<lparr>off_x := off_x offset + adv\<rparr>, cr')))"

text \<open>
  The loop of lines 227-252. Nothing in display.c makes the tokenizer consume text, so
  the loop takes fuel: \<open>None\<close> is a loop still running when the fuel is spent.
\<close>

fun draw_line_loop ::
  "nat \<Rightarrow> ('d, 'f) platform \<Rightarrow> settings_t \<Rightarrow> color_t \<Rightarrow> string \<Rightarrow> offset_t \<Rightarrow> cairo_t
     \<Rightarrow> (offset_t \<times> cairo_t) option" where
  "draw_line_loop 0 P S foreground c offset cr = None"
| "draw_line_loop (Suc n) P S foreground c offset cr =
     (if c = [] then Some (offset, cr)
      else (let (d, c') = parse_result_line P cr c (width S - off_x offset)
            in if d_data d = None then Some (offset, cr)
               else (let (offset', cr') = draw_line_token P S foreground d offset cr
                     in draw_line_loop n P S foreground c' offset' cr')))"

text \<open>\<^verbatim>\<open>draw_line\<close>, lines 214-255. A null \<^verbatim>\<open>text\<close> skips the loop as an empty one does.\<close>

definition draw_line ::
  "nat \<Rightarrow> ('d, 'f) platform \<Rightarrow> settings_t \<Rightarrow> global_t \<Rightarrow> cairo_t \<Rightarrow> cstr \<Rightarrow> u32
     \<Rightarrow> color_t \<Rightarrow> color_t \<Rightarrow> (offset_t \<times> cairo_t) option" where
  "draw_line n P S G cr text line foreground background =
     draw_line_loop n P S foreground (case text of None \<Rightarrow> [] | Some s \<Rightarrow> s)
       (calculate_line_offset S G line)
       (cr @ [cairo_set_source_rgb background,
              cairo_rectangle 0 (uint (line * height S + 2)) (uint (width S))
                (uint ((line + 1) * height S)),
              cairo_stroke_preserve, cairo_fill])"

section \<open>The description panel\<close>

text \<open>Line 268: the panel height \<^verbatim>\<open>draw_desc\<close> computes.\<close>

definition desc_height :: "settings_t \<Rightarrow> global_t \<Rightarrow> u32" where
  "desc_height S G = height S * (result_count G + 1)"

text \<open>Lines 293-295: an explicit line break.\<close>

definition desc_new_line :: "settings_t \<Rightarrow> offset_t \<Rightarrow> offset_t" where
  "desc_new_line S offset =
     offset\<lparr>off_x := width S,
            off_y := off_y offset + font_size S,
            off_image_y := off_image_y offset + font_size S\<rparr>"

text \<open>Lines 306-311: the test after each token, and the break it forces.\<close>

definition desc_overflows :: "settings_t \<Rightarrow> offset_t \<Rightarrow> bool" where
  "desc_overflows S offset = (width S + desc_size S < off_x offset + font_size S)"

definition desc_forced_break :: "settings_t \<Rightarrow> global_t \<Rightarrow> offset_t \<Rightarrow> offset_t" where
  "desc_forced_break S G offset =
     offset\<lparr>off_x := width S,
            off_y := off_y offset + real_font_size G,
            off_image_y := off_image_y offset + real_font_size G\<rparr>"

definition desc_wrap :: "settings_t \<Rightarrow> global_t \<Rightarrow> offset_t \<Rightarrow> offset_t" where
  "desc_wrap S G offset =
     (if desc_overflows S offset then desc_forced_break S G offset else offset)"

text \<open>
  The switch of \<^verbatim>\<open>draw_desc\<close>, lines 281-304. The weights 1 and 0 it passes to
  \<^verbatim>\<open>draw_text\<close> are cairo's bold and normal.
\<close>

definition draw_desc_token ::
  "('d, 'f) platform \<Rightarrow> settings_t \<Rightarrow> global_t \<Rightarrow> color_t \<Rightarrow> draw_t \<Rightarrow> offset_t \<Rightarrow> cairo_t
     \<Rightarrow> offset_t \<times> cairo_t" where
  "draw_desc_token P S G foreground d offset cr =
     (case d_type d of
        DRAW_IMAGE \<Rightarrow>
          (let (format, cr') = draw_image P cr (d_data d) offset (desc_size S)
                                 (desc_height S G - off_image_y offset);
               offset1 = offset\<lparr>off_image_y := off_image_y offset + img_height format\<rparr>;
               offset2 = offset1\<lparr>off_y := off_image_y offset1\<rparr>
           in (offset2\<lparr>off_x := off_x offset2 + img_width format\<rparr>, cr'))
      | NEW_LINE \<Rightarrow> (desc_new_line S offset, cr)
      | BOLD \<Rightarrow>
          (let (adv, cr') = draw_text P S cr (d_data d) offset foreground CAIRO_FONT_WEIGHT_BOLD
           in (offset\<lparr>off_x := off_x offset + adv\<rparr>, cr'))
      | _ \<Rightarrow>
          (let (adv, cr') = draw_text P S cr (d_data d) offset foreground CAIRO_FONT_WEIGHT_NORMAL
           in (offset\<lparr>off_x := off_x offset + adv\<rparr>, cr')))"

text \<open>The loop of lines 277-312, with fuel as for \<open>draw_line_loop\<close>.\<close>

fun draw_desc_loop ::
  "nat \<Rightarrow> ('d, 'f) platform \<Rightarrow> settings_t \<Rightarrow> global_t \<Rightarrow> color_t \<Rightarrow> string \<Rightarrow> offset_t
     \<Rightarrow> cairo_t \<Rightarrow> (offset_t \<times> cairo_t) option" where
  "draw_desc_loop 0 P S G foreground c offset cr = None"
| "draw_desc_loop (Suc n) P S G foreground c offset cr =
     (if c = [] then Some (offset, cr)
      else (let (d, c') = parse_result_line P cr c (desc_size S + width S - off_x offset);
                (offset', cr') = draw_desc_token P S G foreground d offset cr
            in draw_desc_loop n P S G foreground c' (desc_wrap S G offset') cr'))"

text \<open>\<^verbatim>\<open>draw_desc\<close>, lines 265-315.\<close>

definition draw_desc ::
  "nat \<Rightarrow> ('d, 'f) platform \<Rightarrow> settings_t \<Rightarrow> global_t \<Rightarrow> cairo_t \<Rightarrow> cstr
     \<Rightarrow> color_t \<Rightarrow> color_t \<Rightarrow> (offset_t \<times> cairo_t) option" where
  "draw_desc n P S G cr text foreground background =
     draw_desc_loop n P S G foreground (case text of None \<Rightarrow> [] | Some s \<Rightarrow> s)
       \<lparr>off_x = width S + 2, off_y = real_font_size G, off_image_y = 0\<rparr>
       (cr @ [cairo_set_source_rgb background,
              cairo_rectangle (uint (width S + 2)) 0 (uint (width S + desc_size S))
                (uint (desc_height S G)),
              cairo_stroke_preserve, cairo_fill])"

section \<open>The result window of draw_result_text\<close>

text \<open>
  Lines 324-326: the highlight is pulled back when it lies past the last result. The
  subtraction \<^verbatim>\<open>global.result_count - 1\<close> is unsigned, so it is \<open>2^32 - 1\<close> for an empty
  result list.
\<close>

definition clamp_highlight :: "global_t \<Rightarrow> global_t" where
  "clamp_highlight g =
     (if result_count g - 1 < result_highlight g
      then g\<lparr>result_highlight := result_count g - 1\<rparr>
      else g)"

text \<open>
  Line 328: \<^verbatim>\<open>max_results = settings.max_height / settings.height - 1\<close>. The division
  traps for a zero row height, which is \<open>None\<close> here.
\<close>

definition max_results :: "settings_t \<Rightarrow> u32 option" where
  "max_results S = (if height S = 0 then None else Some (max_height S div height S - 1))"

text \<open>
  Lines 324-335, for a given \<^verbatim>\<open>max_results\<close>: the new global state and
  \<^verbatim>\<open>display_results\<close>.
\<close>

definition result_window :: "global_t \<Rightarrow> u32 \<Rightarrow> global_t \<times> u32" where
  "result_window g0 maxr =
     (let g = clamp_highlight g0;
          display_results = min_macro (result_count g) maxr
      in if result_offset g + display_results < result_highlight g + 1
         then (let g' = g\<lparr>result_offset := result_highlight g - (display_results - 1)\<rparr>
               in (g', result_count g' - result_offset g'))
         else if result_highlight g < result_offset g
         then (g\<lparr>result_offset := result_highlight g\<rparr>, display_results)
         else (g, display_results))"

text \<open>
  The test of line 330: the pass scrolls the window down, and only then recomputes
  \<^verbatim>\<open>display_results\<close> from the result count (line 332).
\<close>

definition scrolls_down :: "global_t \<Rightarrow> u32 \<Rightarrow> bool" where
  "scrolls_down g0 maxr =
     (let g = clamp_highlight g0
      in result_offset g + min_macro (result_count g) maxr < result_highlight g + 1)"

text \<open>
  Lines 361-367: the rows handed to \<^verbatim>\<open>draw_line\<close>, as (index into the results, line on
  screen, drawn in the highlight colours). \<^verbatim>\<open>index\<close> and \<^verbatim>\<open>line\<close> are \<^verbatim>\<open>int32_t\<close>, the
  bound \<^verbatim>\<open>global.result_offset + display_results\<close> is \<^verbatim>\<open>uint32_t\<close>, so the comparison
  is unsigned.
\<close>

function result_rows :: "u32 \<Rightarrow> u32 \<Rightarrow> u32 \<Rightarrow> u32 \<Rightarrow> (u32 \<times> u32 \<times> bool) list" where
  "result_rows bound hl index line =
     (if index < bound
      then (index, line, index = hl) # result_rows bound hl (index + 1) (line + 1)
      else [])"
  by pat_completeness auto
termination
proof (relation "measure (\<lambda>(bound, hl, index, line). unat bound - unat index)")
  show "wf (measure (\<lambda>(bound, hl, index, line). unat bound - unat index))"
    by simp
next
  fix bound hl index line :: u32
  assume lt: "index < bound"
  then have "unat index < unat bound"
    by (simp add: word_less_nat_alt)
  moreover from lt have "unat (index + 1) = unat index + 1"
    by unat_arith
  ultimately show "((bound, hl, index + 1, line + 1), (bound, hl, index, line))
      \<in> measure (\<lambda>(bound, hl, index, line). unat bound - unat index)"
    by simp
qed

declare result_rows.simps [simp del]

text \<open>
  Lines 344 and 355: the height the window and the cairo surface are resized to, just
  before the description panel and the rows are drawn.
\<close>

definition new_height :: "settings_t \<Rightarrow> global_t \<Rightarrow> u32" where
  "new_height S G = min_macro (height S * (result_count G + 1)) (max_height S)"

text \<open>
  \<^verbatim>\<open>draw_result_text\<close> as far as the result list goes: the window, then the rows. (The
  calls that resize and move the X11 window, lines 337-359, draw no row and are left
  out.)
\<close>

definition draw_result_text :: "settings_t \<Rightarrow> global_t \<Rightarrow> (global_t \<times> (u32 \<times> u32 \<times> bool) list) option" where
  "draw_result_text S g0 =
     (case max_results S of
        None \<Rightarrow> None
      | Some maxr \<Rightarrow>
          (let (g, display_results) = result_window g0 maxr
           in Some (g, result_rows (result_offset g + display_results) (result_highlight g)
                         (result_offset g) 1)))"


section \<open>Single precision\<close>

text \<open>
  \<^verbatim>\<open>draw_image\<close> computes the scaling factor in \<^verbatim>\<open>float\<close>. On the platforms lighthouse runs
  on that is IEEE 754 binary32: every operation yields the exact result rounded to the
  nearest number with a 24-bit significand, ties to the even significand. The numbers
  are rationals here. \<open>round24\<close> scales a positive number by powers of two into
  \<open>[2^23, 2^24)\<close>, rounds it to an integer there and scales back; it takes at most \<open>n\<close>
  scaling steps, and 200 of them reach from \<open>2^-177\<close> to \<open>2^224\<close>, more than the exponent
  range of binary32 (which, like infinities and NaN, quotients and products of 32-bit
  integers do not need).
\<close>

definition round_half_even :: "rat \<Rightarrow> int" where
  "round_half_even x =
     (let f = \<lfloor>x\<rfloor>; d = x - of_int f
      in if d < 1 / 2 then f else if 1 / 2 < d then f + 1 else if even f then f else f + 1)"

fun round24 :: "nat \<Rightarrow> rat \<Rightarrow> rat" where
  "round24 0 x = x"
| "round24 (Suc n) x =
     (if x < 8388608 then round24 n (2 * x) / 2
      else if 16777216 \<le> x then 2 * round24 n (x / 2)
      else of_int (round_half_even x))"

definition binary32 :: "rat \<Rightarrow> rat" where
  "binary32 x = (if x = 0 then 0 else if x < 0 then - round24 200 (- x) else round24 200 x)"

text \<open>The numbers with a 24-bit significand, and the value of a \<^verbatim>\<open>uint32_t\<close>.\<close>

definition fp24 :: "rat \<Rightarrow> bool" where
  "fp24 z = (\<exists>(m::int) (j::nat). \<bar>m\<bar> < 16777216 \<and> (z = of_int m * 2 ^ j \<or> z = of_int m / 2 ^ j))"

definition rat_of_u32 :: "u32 \<Rightarrow> rat" where
  "rat_of_u32 w = of_nat (unat w)"

text \<open>
  A platform whose \<^verbatim>\<open>float\<close> is binary32: conversion from \<^verbatim>\<open>uint32_t\<close>, division and
  multiplication round, and the conversion back truncates.
\<close>

definition single_precision :: "('d, rat) platform \<Rightarrow> bool" where
  "single_precision P =
     (float_of_u32 P = (\<lambda>w. binary32 (rat_of_u32 w))
      \<and> float_div P = (\<lambda>a b. binary32 (a / b))
      \<and> float_mul P = (\<lambda>a b. binary32 (a * b))
      \<and> float_less P = (\<lambda>a b. a < b)
      \<and> u32_of_float P = (\<lambda>x. word_of_int \<lfloor>x\<rfloor>))"

section \<open>Notions the claims use\<close>

text \<open>The cairo calls that put a token on the surface.\<close>

fun is_render :: "cairo_call \<Rightarrow> bool" where
  "is_render (cairo_show_text text) = True"
| "is_render (cairo_mask_surface file format x y) = True"
| "is_render call = False"

text \<open>
  The tokenizer contract of the spec: every call on a non-empty rest advances the
  cursor.
\<close>

definition tokenizer_consumes :: "('d, 'f) platform \<Rightarrow> bool" where
  "tokenizer_consumes P =
     (\<forall>cr c budget. c \<noteq> [] \<longrightarrow> length (snd (parse_result_line P cr c budget)) < length c)"

section \<open>A concrete configuration\<close>

text \<open>
  A row 100 pixels wide and 20 high, a window at most 80 high (so three result rows),
  a font of size 12 whose characters are 15 pixels high, three results, and a platform
  that measures ten pixels for every character, in whole pixels, and knows one image
  file, \<open>x.png\<close> of 800 by 600 pixels. Its tokenizer reads \<open>#\<close> as the start of an image
  path that runs up to the next blank, \<open>!\<close> as a token without data, and everything
  else up to the next \<open>#\<close> or \<open>!\<close> as plain text.
\<close>

definition black :: color_t where
  "black = \<lparr>col_r = 0, col_g = 0, col_b = 0\<rparr>"

definition white :: color_t where
  "white = \<lparr>col_r = 1, col_g = 1, col_b = 1\<rparr>"

definition settings0 :: settings_t where
  "settings0 =
     \<lparr>width = 100, height = 20, max_height = 80, horiz_padding = 5, font_size = 12,
      desc_size = 50, cursor_padding = 1, cursor_is_underline = False,
      query_fg = white, query_bg = black\<rparr>"

definition global0 :: global_t where
  "global0 = \<lparr>result_count = 3, result_highlight = 0, result_offset = 0, real_font_size = 15\<rparr>"

definition length_extents :: "cstr \<Rightarrow> int cairo_text_extents_t" where
  "length_extents text =
     (case text of
        None \<Rightarrow> \<lparr>ext_width = 0, ext_x_advance = 0\<rparr>
      | Some s \<Rightarrow> \<lparr>ext_width = 10 * int (length s), ext_x_advance = 10 * int (length s)\<rparr>)"

definition plain :: "char \<Rightarrow> bool" where
  "plain ch = (ch \<noteq> CHR ''#'' \<and> ch \<noteq> CHR ''!'')"

definition marker_tokens :: "string \<Rightarrow> draw_t \<times> string" where
  "marker_tokens c =
     (case c of
        [] \<Rightarrow> (\<lparr>d_type = DRAW_TEXT, d_data = None\<rparr>, [])
      | ch # rest \<Rightarrow>
          if ch = CHR ''#''
          then (\<lparr>d_type = DRAW_IMAGE, d_data = Some (takeWhile (\<lambda>x. x \<noteq> CHR '' '') rest)\<rparr>,
                dropWhile (\<lambda>x. x \<noteq> CHR '' '') rest)
          else if ch = CHR ''!''
          then (\<lparr>d_type = DRAW_TEXT, d_data = None\<rparr>, rest)
          else (\<lparr>d_type = DRAW_TEXT, d_data = Some (takeWhile plain c)\<rparr>, dropWhile plain c))"

definition platform0 :: "(int, rat) platform" where
  "platform0 =
     \<lparr>cairo_text_extents = (\<lambda>cr text. length_extents text),
      parse_result_line = (\<lambda>cr c budget. marker_tokens c),
      wordexp = (\<lambda>file. Some file),
      access = (\<lambda>file. file = Some ''x.png''),
      png_size = (\<lambda>file. if file = Some ''x.png'' then Some (800, 600) else None),
      double_of_u32 = uint,
      double_sub = (\<lambda>a b. a - b),
      double_less = (\<lambda>a b. a < b),
      u32_of_double = word_of_int,
      i32_of_double = word_of_int,
      float_of_u32 = (\<lambda>w. of_int (uint w)),
      float_div = (\<lambda>a b. a / b),
      float_mul = (\<lambda>a b. a * b),
      float_less = (\<lambda>a b. a < b),
      u32_of_float = (\<lambda>q. word_of_int \<lfloor>q\<rfloor>)\<rparr>"

text \<open>The same platform with binary32 for its \<^verbatim>\<open>float\<close>.\<close>

definition platform1 :: "(int, rat) platform" where
  "platform1 = platform0
     \<lparr>float_of_u32 := (\<lambda>w. binary32 (rat_of_u32 w)),
      float_div := (\<lambda>a b. binary32 (a / b)),
      float_mul := (\<lambda>a b. binary32 (a * b)),
      float_less := (\<lambda>a b. a < b),
      u32_of_float := (\<lambda>x. word_of_int \<lfloor>x\<rfloor>)\<rparr>"

section \<open>Facts about 32-bit arithmetic\<close>


lemma u32_add: "unat (a::u32) + unat b < 2 ^ 32 \<Longrightarrow> unat (a + b) = unat a + unat b"
  using unat_add_lem [of a b] by simp

lemma u32_suc: "(a::u32) < c \<Longrightarrow> unat (a + 1) = unat a + 1"
  by unat_arith

lemma u32_pred: "0 < (d::u32) \<Longrightarrow> unat (d - 1) = unat d - 1"
  by (simp add: unat_minus_one word_greater_zero_iff)

lemma u32_sub: "(b::u32) \<le> a \<Longrightarrow> unat (a - b) = unat a - unat b"
  by (rule unat_sub)

lemma u32_mult: "unat (a::u32) * unat b < 2 ^ 32 \<Longrightarrow> unat (a * b) = unat a * unat b"
  using unat_mult_lem [of a b] by simp

text \<open>The rectangle of a row (lines 85 and 220), when nothing wraps.\<close>

lemma row_rectangle_arith:
  fixes line h :: u32
  assumes bound: "(unat line + 1) * unat h + 2 < 2 ^ 32"
  shows "uint (line * h + 2) = uint line * uint h + 2"
    and "uint ((line + 1) * h) = (uint line + 1) * uint h"
proof -
  have m: "unat (line * h) = unat line * unat h"
    using bound by (intro u32_mult) simp
  have "unat (line * h) + unat (2::u32) < 2 ^ 32"
    using bound m by simp
  then have a: "unat (line * h + 2) = unat line * unat h + 2"
    using m u32_add [of "line * h" 2] by simp
  have b: "unat ((line + 1) * h) = (unat line + 1) * unat h"
  proof (cases "h = 0")
    case True
    then show ?thesis by simp
  next
    case False
    then have "1 \<le> unat h"
      by (simp add: unat_gt_0 Suc_le_eq)
    then have "(unat line + 1) * 1 \<le> (unat line + 1) * unat h"
      by (intro mult_left_mono) simp_all
    with bound have "unat line + unat (1::u32) < 2 ^ 32"
      by simp
    then have l1: "unat (line + 1) = unat line + 1"
      using u32_add [of line 1] by simp
    have "unat (line + 1) * unat h < 2 ^ 32"
      unfolding l1 using bound by linarith
    then have "unat ((line + 1) * h) = unat (line + 1) * unat h"
      by (rule u32_mult)
    then show ?thesis
      unfolding l1 .
  qed
  show "uint (line * h + 2) = uint line * uint h + 2"
    unfolding uint_nat a by simp
  show "uint ((line + 1) * h) = (uint line + 1) * uint h"
    unfolding uint_nat b by (simp add: algebra_simps)
qed

lemma clamp_highlight_fields [simp]:
  "result_count (clamp_highlight g) = result_count g"
  "result_offset (clamp_highlight g) = result_offset g"
  unfolding clamp_highlight_def by simp_all

lemma clamp_highlight_value:
  assumes "0 < result_count g"
  shows "unat (result_highlight (clamp_highlight g))
           = min (unat (result_highlight g)) (unat (result_count g) - 1)"
proof -
  have p: "unat (result_count g - 1) = unat (result_count g) - 1"
    using assms by (rule u32_pred)
  show ?thesis
    unfolding clamp_highlight_def using p by (auto simp: word_less_nat_alt)
qed

lemma min_macro_unat: "unat (min_macro a b) = min (unat a) (unat b)"
  unfolding min_macro_def by (auto simp: word_less_nat_alt)

text \<open>The arithmetic of the branch that scrolls down (lines 331-332).\<close>

lemma scroll_down_arith:
  fixes h off d cnt :: u32
  assumes hc: "h < cnt" and dpos: "0 < d" and dc: "d \<le> cnt"
    and nowrap: "unat off + unat d < 2 ^ 32" and cond: "off + d < h + 1"
  shows "unat (h - (d - 1)) + unat d = unat h + 1"
    and "unat (cnt - (h - (d - 1))) = unat d + (unat cnt - 1 - unat h)"
proof -
  have s: "unat (off + d) = unat off + unat d"
    using nowrap by (rule u32_add)
  have h1: "unat (h + 1) = unat h + 1"
    using hc by (rule u32_suc)
  have lt: "unat off + unat d < unat h + 1"
    using cond s h1 by (simp add: word_less_nat_alt)
  have p: "unat (d - 1) = unat d - 1"
    using dpos by (rule u32_pred)
  have dn: "0 < unat d"
    using dpos by (simp add: word_less_nat_alt)
  have le: "d - 1 \<le> h"
    using lt p by (simp add: word_le_nat_alt)
  have a: "unat (h - (d - 1)) = unat h - (unat d - 1)"
    using u32_sub [OF le] p by simp
  show one: "unat (h - (d - 1)) + unat d = unat h + 1"
    using a lt dn by simp
  have hcn: "unat h < unat cnt"
    using hc by (simp add: word_less_nat_alt)
  have le2: "h - (d - 1) \<le> cnt"
    using a hcn by (simp add: word_le_nat_alt)
  show "unat (cnt - (h - (d - 1))) = unat d + (unat cnt - 1 - unat h)"
    using u32_sub [OF le2] a lt dn hcn by simp
qed


lemma min_macro_le: "min_macro a b \<le> a" "min_macro a b \<le> b"
  unfolding min_macro_def by auto

lemma min_macro_pos: "0 < a \<Longrightarrow> 0 < b \<Longrightarrow> 0 < min_macro a b"
  unfolding min_macro_def by auto

lemma clamp_highlight_less:
  "0 < result_count g \<Longrightarrow> result_highlight (clamp_highlight g) < result_count g"
  using clamp_highlight_value [of g] by (simp add: word_less_nat_alt)

lemma result_window_down:
  assumes "scrolls_down g0 maxr"
  shows "result_window g0 maxr =
     (let g = clamp_highlight g0;
          off = result_highlight g - (min_macro (result_count g) maxr - 1)
      in (g\<lparr>result_offset := off\<rparr>, result_count g - off))"
  using assms unfolding result_window_def scrolls_down_def Let_def by simp

lemma result_window_stay:
  assumes "\<not> scrolls_down g0 maxr"
  shows "result_window g0 maxr =
     (let g = clamp_highlight g0
      in (if result_highlight g < result_offset g then g\<lparr>result_offset := result_highlight g\<rparr> else g,
          min_macro (result_count g) maxr))"
  using assms unfolding result_window_def scrolls_down_def Let_def by simp

lemma stay_arith:
  fixes h off d cnt :: u32
  assumes hc: "h < cnt" and nowrap: "unat off + unat d < 2 ^ 32" and cond: "\<not> off + d < h + 1"
  shows "unat h < unat off + unat d"
proof -
  have s: "unat (off + d) = unat off + unat d"
    using nowrap by (rule u32_add)
  have h1: "unat (h + 1) = unat h + 1"
    using hc by (rule u32_suc)
  show ?thesis
    using cond s h1 by (simp add: word_less_nat_alt)
qed


lemma result_window_highlight:
  "result_highlight (fst (result_window g0 maxr)) = result_highlight (clamp_highlight g0)"
  unfolding result_window_def Let_def by simp

lemma result_window_count:
  "result_count (fst (result_window g0 maxr)) = result_count g0"
  unfolding result_window_def Let_def by simp

lemma clamp_highlight_empty:
  "result_count g = 0 \<Longrightarrow> clamp_highlight g = g"
  unfolding clamp_highlight_def by (simp add: not_less)

lemma min_macro_zero: "min_macro 0 b = 0"
  unfolding min_macro_def by (simp add: word_greater_zero_iff)

lemma result_window_bound_empty:
  assumes "result_count g0 = 0" and "result_window g0 maxr = (g, d)"
  shows "result_offset g + d = 0 \<or> result_offset g + d = result_offset g"
  using assms unfolding result_window_def Let_def
  by (auto split: if_splits simp: clamp_highlight_empty min_macro_zero)

lemma result_rows_none:
  "bound = 0 \<or> bound = index \<Longrightarrow> result_rows bound hl index line = []"
  by (auto simp: result_rows.simps)

lemma result_window_post:
  assumes cpos: "0 < result_count g0" and mpos: "0 < maxr"
    and nowrap: "unat (result_offset g0) + unat (min_macro (result_count g0) maxr) < 2 ^ 32"
    and run: "result_window g0 maxr = (g, d)"
  shows "unat (result_offset g) \<le> unat (result_highlight g)"
    and "unat (result_highlight g) < unat (result_offset g) + unat (min_macro (result_count g0) maxr)"
    and "unat (result_offset g) + unat (min_macro (result_count g0) maxr) < 2 ^ 32"
    and "result_highlight g < result_count g0"
    and "result_count g = result_count g0"
proof -
  define c where "c = clamp_highlight g0"
  define m where "m = min_macro (result_count g0) maxr"
  have hc: "result_highlight c < result_count g0"
    unfolding c_def using cpos by (rule clamp_highlight_less)
  have hg: "result_highlight g = result_highlight c"
    using result_window_highlight [of g0 maxr] run by (simp add: c_def)
  show "result_highlight g < result_count g0"
    using hc hg by simp
  show "result_count g = result_count g0"
    using result_window_count [of g0 maxr] run by simp
  have mpos': "0 < m"
    unfolding m_def using cpos mpos by (rule min_macro_pos)
  have mc: "m \<le> result_count g0"
    unfolding m_def by (rule min_macro_le)
  have mn: "0 < unat m"
    using mpos' by (simp add: word_less_nat_alt)
  have cn: "unat (result_count g0) < 2 ^ 32"
    using unsigned_less [of "result_count g0", where ?'a = nat] by simp
  have hcn: "unat (result_highlight c) < unat (result_count g0)"
    using hc by (simp add: word_less_nat_alt)
  have "unat (result_offset g) \<le> unat (result_highlight g)
      \<and> unat (result_highlight g) < unat (result_offset g) + unat m
      \<and> unat (result_offset g) + unat m < 2 ^ 32"
  proof (cases "scrolls_down g0 maxr")
    case True
    then have cond: "result_offset g0 + m < result_highlight c + 1"
      unfolding scrolls_down_def c_def m_def Let_def by simp
    have g: "g = c\<lparr>result_offset := result_highlight c - (m - 1)\<rparr>"
      using run result_window_down [OF True] unfolding c_def m_def Let_def by simp
    note ar = scroll_down_arith [OF hc mpos' mc nowrap [folded m_def] cond]
    show ?thesis
      using ar(1) g mn hcn cn by simp
  next
    case False
    then have cond: "\<not> result_offset g0 + m < result_highlight c + 1"
      unfolding scrolls_down_def c_def m_def Let_def by simp
    have g: "g = (if result_highlight c < result_offset c then c\<lparr>result_offset := result_highlight c\<rparr> else c)"
      using run result_window_stay [OF False] unfolding c_def m_def Let_def by simp
    have up: "unat (result_highlight c) < unat (result_offset g0) + unat m"
      using hc nowrap [folded m_def] cond by (rule stay_arith)
    have off: "result_offset c = result_offset g0"
      unfolding c_def by simp
    show ?thesis
      using g mn up off nowrap [folded m_def] by (auto simp: word_less_nat_alt)
  qed
  then show "unat (result_offset g) \<le> unat (result_highlight g)"
    and "unat (result_highlight g) < unat (result_offset g) + unat (min_macro (result_count g0) maxr)"
    and "unat (result_offset g) + unat (min_macro (result_count g0) maxr) < 2 ^ 32"
    unfolding m_def by simp_all
qed


section \<open>Facts about draw_image\<close>

lemma draw_image_absent:
  "\<not> access P (expanded_file P file)
   \<Longrightarrow> draw_image P cr file offset wx wy = (\<lparr>img_width = 0, img_height = 0\<rparr>, cr)"
  unfolding draw_image_def Let_def by simp

lemma scale_format_zero:
  "scale_format P \<lparr>img_width = 0, img_height = 0\<rparr> wx wy = \<lparr>img_width = 0, img_height = 0\<rparr>"
  unfolding scale_format_def by simp

lemma draw_image_present:
  "access P (expanded_file P file)
   \<Longrightarrow> draw_image P cr file offset wx wy
       = (scale_format P (natural_format P (expanded_file P file)) wx wy,
          cr @ [cairo_set_source_surface (expanded_file P file)
                  (scale_format P (natural_format P (expanded_file P file)) wx wy)
                  (uint (off_x offset)) (uint (off_image_y offset)),
                cairo_mask_surface (expanded_file P file)
                  (scale_format P (natural_format P (expanded_file P file)) wx wy)
                  (uint (off_x offset)) (uint (off_image_y offset))])"
  unfolding draw_image_def Let_def by simp

lemma draw_image_unreadable:
  assumes "\<not> access P (expanded_file P file) \<or> png_size P (expanded_file P file) = None"
  shows "fst (draw_image P cr file offset wx wy) = \<lparr>img_width = 0, img_height = 0\<rparr>"
proof (cases "access P (expanded_file P file)")
  case True
  with assms have "natural_format P (expanded_file P file) = \<lparr>img_width = 0, img_height = 0\<rparr>"
    by (simp add: natural_format_def)
  with True show ?thesis
    by (simp add: draw_image_present scale_format_zero)
next
  case False
  then show ?thesis
    by (simp add: draw_image_absent)
qed

section \<open>Facts about the layout loops\<close>

lemma draw_line_loop_returns:
  assumes "tokenizer_consumes P"
  shows "length c < n \<Longrightarrow> \<exists>r. draw_line_loop n P S foreground c offset cr = Some r"
proof (induction n arbitrary: c offset cr)
  case 0
  then show ?case by simp
next
  case (Suc n)
  show ?case
  proof (cases "c = []")
    case True
    then show ?thesis by simp
  next
    case False
    obtain d c' where tok: "parse_result_line P cr c (width S - off_x offset) = (d, c')"
      by (cases "parse_result_line P cr c (width S - off_x offset)")
    have "length c' < length c"
      using assms False tok unfolding tokenizer_consumes_def
      by (metis snd_conv)
    with Suc.prems have short: "length c' < n"
      by simp
    obtain offset' cr' where step: "draw_line_token P S foreground d offset cr = (offset', cr')"
      by (cases "draw_line_token P S foreground d offset cr")
    show ?thesis
      using False tok step Suc.IH [OF short, of offset' cr'] by (cases "d_data d") auto
  qed
qed

lemma draw_line_token_image:
  assumes "d_type d = DRAW_IMAGE"
  shows "draw_line_token P S foreground d offset cr
     = (offset\<lparr>off_x := off_x offset
           + img_width (fst (draw_image P cr (d_data d) offset (width S - off_x offset) (height S)))\<rparr>,
        snd (draw_image P cr (d_data d) offset (width S - off_x offset) (height S)))"
  using assms unfolding draw_line_token_def by (simp add: Let_def split: prod.splits)

lemma marker_tokens_consumes:
  "c \<noteq> [] \<Longrightarrow> length (snd (marker_tokens c)) < length c"
proof (cases c)
  case Nil
  then show "c \<noteq> [] \<Longrightarrow> ?thesis" by simp
next
  case (Cons ch rest)
  have a: "length (dropWhile (\<lambda>x. x \<noteq> CHR '' '') rest) \<le> length rest"
    by (rule length_dropWhile_le)
  have b: "length (dropWhile plain rest) \<le> length rest"
    by (rule length_dropWhile_le)
  show ?thesis
    using Cons a b by (auto simp: marker_tokens_def plain_def)
qed

lemma platform0_consumes: "tokenizer_consumes platform0"
  unfolding tokenizer_consumes_def by (simp add: platform0_def marker_tokens_consumes)

lemma draw_text_calls:
  "snd (draw_text P S cr text offset foreground weight)
     = cr @ [cairo_move_to (uint (off_x offset)) (uint (off_y offset)),
             cairo_set_source_rgb foreground,
             cairo_select_font_face weight,
             cairo_set_font_size (font_size S),
             cairo_show_text text]"
  unfolding draw_text_def by (simp add: Let_def)

lemma draw_image_calls:
  "\<exists>rest. snd (draw_image P cr file offset wx wy) = cr @ rest \<and> cairo_fill \<notin> set rest"
  by (cases "access P (expanded_file P file)") (simp_all add: draw_image_present draw_image_absent)

lemma draw_line_token_bold:
  assumes "d_type d = BOLD"
  shows "draw_line_token P S foreground d offset cr
     = (offset\<lparr>off_x := off_x offset
           + fst (draw_text P S cr (d_data d) offset foreground CAIRO_FONT_WEIGHT_BOLD)\<rparr>,
        snd (draw_text P S cr (d_data d) offset foreground CAIRO_FONT_WEIGHT_BOLD))"
  using assms unfolding draw_line_token_def by (simp add: Let_def case_prod_beta)

lemma draw_line_token_text:
  assumes "d_type d = DRAW_TEXT \<or> d_type d = OTHER"
  shows "draw_line_token P S foreground d offset cr
     = (offset\<lparr>off_x := off_x offset
           + fst (draw_text P S cr (d_data d) offset foreground CAIRO_FONT_WEIGHT_NORMAL)\<rparr>,
        snd (draw_text P S cr (d_data d) offset foreground CAIRO_FONT_WEIGHT_NORMAL))"
  using assms unfolding draw_line_token_def by (auto simp: Let_def case_prod_beta)

lemma draw_line_token_calls:
  "\<exists>rest. snd (draw_line_token P S foreground d offset cr) = cr @ rest \<and> cairo_fill \<notin> set rest"
proof (cases "d_type d")
  case DRAW_IMAGE
  then show ?thesis
    using draw_image_calls by (simp add: draw_line_token_image)
next
  case BOLD
  then show ?thesis
    by (simp add: draw_line_token_bold draw_text_calls)
next
  case NEW_LINE
  then show ?thesis
    unfolding draw_line_token_def by simp
next
  case DRAW_TEXT
  then show ?thesis
    by (simp add: draw_line_token_text draw_text_calls)
next
  case OTHER
  then show ?thesis
    by (simp add: draw_line_token_text draw_text_calls)
qed

lemma draw_line_loop_calls:
  "draw_line_loop n P S foreground c offset cr = Some (offset', cr')
   \<Longrightarrow> \<exists>rest. cr' = cr @ rest \<and> cairo_fill \<notin> set rest"
proof (induction n arbitrary: c offset cr)
  case 0
  then show ?case by simp
next
  case (Suc n)
  show ?case
  proof (cases "c = []")
    case True
    with Suc.prems show ?thesis by simp
  next
    case False
    obtain d c1 where tok: "parse_result_line P cr c (width S - off_x offset) = (d, c1)"
      by (cases "parse_result_line P cr c (width S - off_x offset)")
    show ?thesis
    proof (cases "d_data d")
      case None
      with Suc.prems False tok show ?thesis by simp
    next
      case (Some s)
      obtain offset1 cr1 where step: "draw_line_token P S foreground d offset cr = (offset1, cr1)"
        by (cases "draw_line_token P S foreground d offset cr")
      obtain r1 where r1: "cr1 = cr @ r1" "cairo_fill \<notin> set r1"
        using draw_line_token_calls [of P S foreground d offset cr] step by auto
      have "draw_line_loop n P S foreground c1 offset1 cr1 = Some (offset', cr')"
        using Suc.prems False tok Some step by simp
      then obtain r2 where r2: "cr' = cr1 @ r2" "cairo_fill \<notin> set r2"
        using Suc.IH by blast
      show ?thesis
        using r1 r2 by auto
    qed
  qed
qed

lemma draw_desc_token_image:
  assumes "d_type d = DRAW_IMAGE"
  shows "snd (draw_desc_token P S G foreground d offset cr)
     = snd (draw_image P cr (d_data d) offset (desc_size S) (desc_height S G - off_image_y offset))"
  using assms unfolding draw_desc_token_def by (simp add: Let_def case_prod_beta)

lemma draw_desc_token_text:
  assumes "d_type d = BOLD \<or> d_type d = DRAW_TEXT \<or> d_type d = OTHER"
  shows "draw_desc_token P S G foreground d offset cr
     = (let weight = (if d_type d = BOLD then CAIRO_FONT_WEIGHT_BOLD else CAIRO_FONT_WEIGHT_NORMAL)
        in (offset\<lparr>off_x := off_x offset
              + fst (draw_text P S cr (d_data d) offset foreground weight)\<rparr>,
            snd (draw_text P S cr (d_data d) offset foreground weight)))"
  using assms unfolding draw_desc_token_def by (auto simp: Let_def case_prod_beta)

section \<open>Facts about single-precision rounding\<close>

lemma round_half_even_cases:
  "round_half_even x = \<lfloor>x\<rfloor> \<and> x \<le> of_int \<lfloor>x\<rfloor> + 1 / 2
   \<or> round_half_even x = \<lfloor>x\<rfloor> + 1 \<and> of_int \<lfloor>x\<rfloor> + 1 / 2 \<le> x"
  unfolding round_half_even_def Let_def by (auto simp: not_less)

lemma round_half_even_upper: "of_int (round_half_even x) \<le> x + 1 / 2"
proof -
  have fl: "(of_int \<lfloor>x\<rfloor> :: rat) \<le> x"
    by linarith
  from round_half_even_cases [of x] show ?thesis
  proof
    assume a: "round_half_even x = \<lfloor>x\<rfloor> \<and> x \<le> of_int \<lfloor>x\<rfloor> + 1 / 2"
    then have "(of_int (round_half_even x) :: rat) = of_int \<lfloor>x\<rfloor>"
      by simp
    with fl show ?thesis
      by linarith
  next
    assume a: "round_half_even x = \<lfloor>x\<rfloor> + 1 \<and> of_int \<lfloor>x\<rfloor> + 1 / 2 \<le> x"
    then have "(of_int (round_half_even x) :: rat) = of_int \<lfloor>x\<rfloor> + 1"
      by simp
    with a show ?thesis
      by linarith
  qed
qed

lemma round_half_even_floor: "\<lfloor>x\<rfloor> \<le> round_half_even x"
  using round_half_even_cases [of x] by auto

lemma round_half_even_ceiling: "round_half_even x \<le> \<lceil>x\<rceil>"
proof -
  have "\<lfloor>x\<rfloor> \<le> \<lceil>x\<rceil>"
    by (rule floor_le_ceiling)
  moreover have "\<lfloor>x\<rfloor> + 1 \<le> \<lceil>x\<rceil>" if "of_int \<lfloor>x\<rfloor> + 1 / 2 \<le> x"
  proof -
    have "of_int \<lfloor>x\<rfloor> < x"
      using that by linarith
    then have "\<lfloor>x\<rfloor> < \<lceil>x\<rceil>"
      by (simp add: less_ceiling_iff)
    then show ?thesis
      by simp
  qed
  ultimately show ?thesis
    using round_half_even_cases [of x] by auto
qed

lemma fp24_double: "fp24 z \<Longrightarrow> fp24 (2 * z)"
proof -
  assume "fp24 z"
  then obtain m :: int and j :: nat where m: "\<bar>m\<bar> < 16777216"
    and z: "z = of_int m * 2 ^ j \<or> z = of_int m / 2 ^ j"
    unfolding fp24_def by blast
  from z show ?thesis
  proof
    assume "z = of_int m * 2 ^ j"
    then have "2 * z = of_int m * 2 ^ Suc j"
      by simp
    with m show ?thesis
      unfolding fp24_def by blast
  next
    assume d: "z = of_int m / 2 ^ j"
    show ?thesis
    proof (cases j)
      case 0
      with d have "2 * z = of_int m * 2 ^ Suc 0"
        by simp
      with m show ?thesis
        unfolding fp24_def by blast
    next
      case (Suc i)
      with d have "2 * z = of_int m / 2 ^ i"
        by simp
      with m show ?thesis
        unfolding fp24_def by blast
    qed
  qed
qed

lemma fp24_half: "fp24 z \<Longrightarrow> fp24 (z / 2)"
proof -
  assume "fp24 z"
  then obtain m :: int and j :: nat where m: "\<bar>m\<bar> < 16777216"
    and z: "z = of_int m * 2 ^ j \<or> z = of_int m / 2 ^ j"
    unfolding fp24_def by blast
  from z show ?thesis
  proof
    assume d: "z = of_int m * 2 ^ j"
    show ?thesis
    proof (cases j)
      case 0
      with d have "z / 2 = of_int m / 2 ^ Suc 0"
        by simp
      with m show ?thesis
        unfolding fp24_def by blast
    next
      case (Suc i)
      with d have "z / 2 = of_int m * 2 ^ i"
        by simp
      with m show ?thesis
        unfolding fp24_def by blast
    qed
  next
    assume "z = of_int m / 2 ^ j"
    then have "z / 2 = of_int m / 2 ^ Suc j"
      by simp
    with m show ?thesis
      unfolding fp24_def by blast
  qed
qed

text \<open>A representable number from 2^23 on is an integer.\<close>

lemma fp24_integer:
  assumes "fp24 z" and "8388608 \<le> z"
  shows "\<exists>k::int. z = of_int k"
proof -
  from assms(1) obtain m :: int and j :: nat where m: "\<bar>m\<bar> < 16777216"
    and z: "z = of_int m * 2 ^ j \<or> z = of_int m / 2 ^ j"
    unfolding fp24_def by blast
  from z show ?thesis
  proof
    assume "z = of_int m * 2 ^ j"
    then have "z = of_int (m * 2 ^ j)"
      by simp
    then show ?thesis ..
  next
    assume d: "z = of_int m / 2 ^ j"
    have "j = 0"
    proof (rule ccontr)
      assume "j \<noteq> 0"
      then have "(2::rat) ^ 1 \<le> 2 ^ j"
        by (intro power_increasing) auto
      then have "(2::rat) \<le> 2 ^ j"
        by simp
      moreover have "(of_int m :: rat) < 16777216"
        using m by (simp add: of_int_less_iff [of m 16777216, where ?'a = rat, simplified])
      moreover have "8388608 * 2 ^ j \<le> (of_int m :: rat)"
        using assms(2) d by (simp add: field_simps)
      ultimately show False
        by linarith
    qed
    with d have "z = of_int m"
      by simp
    then show ?thesis ..
  qed
qed


lemma round24_nonneg: "0 \<le> x \<Longrightarrow> 0 \<le> round24 n x"
proof (induction n arbitrary: x)
  case 0
  then show ?case by simp
next
  case (Suc n)
  have a: "0 \<le> round24 n (2 * x)" and b: "0 \<le> round24 n (x / 2)"
    using Suc.prems by (auto intro: Suc.IH)
  have "0 \<le> \<lfloor>x\<rfloor>"
    using Suc.prems by (simp add: le_floor_iff)
  then have "0 \<le> round_half_even x"
    using round_half_even_floor [of x] by linarith
  then have c: "(0::rat) \<le> of_int (round_half_even x)"
    by simp
  show ?case
    using a b c by simp
qed

lemma round24_le_representable: "fp24 z \<Longrightarrow> x \<le> z \<Longrightarrow> round24 n x \<le> z"
proof (induction n arbitrary: x z)
  case 0
  then show ?case by simp
next
  case (Suc n)
  show ?case
  proof (cases "x < 8388608")
    case True
    have "round24 n (2 * x) \<le> 2 * z"
      using Suc.prems by (intro Suc.IH fp24_double) simp_all
    with True show ?thesis
      by simp
  next
    case low: False
    show ?thesis
    proof (cases "16777216 \<le> x")
      case True
      have "round24 n (x / 2) \<le> z / 2"
        using Suc.prems by (intro Suc.IH fp24_half) simp_all
      with low True show ?thesis
        by simp
    next
      case False
      obtain k :: int where k: "z = of_int k"
        using fp24_integer [of z] Suc.prems low by fastforce
      have "\<lceil>x\<rceil> \<le> k"
        using Suc.prems(2) k by (simp add: ceiling_le_iff)
      then have "round_half_even x \<le> k"
        using round_half_even_ceiling [of x] by simp
      then have "(of_int (round_half_even x) :: rat) \<le> of_int k"
        by (simp only: of_int_le_iff)
      with low False k show ?thesis
        by simp
    qed
  qed
qed

lemma round24_ge_representable: "fp24 z \<Longrightarrow> z \<le> x \<Longrightarrow> z \<le> round24 n x"
proof (induction n arbitrary: x z)
  case 0
  then show ?case by simp
next
  case (Suc n)
  show ?case
  proof (cases "x < 8388608")
    case True
    have "2 * z \<le> round24 n (2 * x)"
      using Suc.prems by (intro Suc.IH fp24_double) simp_all
    with True show ?thesis
      by simp
  next
    case low: False
    show ?thesis
    proof (cases "16777216 \<le> x")
      case True
      have "z / 2 \<le> round24 n (x / 2)"
        using Suc.prems by (intro Suc.IH fp24_half) simp_all
      with low True show ?thesis
        by simp
    next
      case False
      have fl: "(8388608::int) \<le> \<lfloor>x\<rfloor>"
        using low by (simp add: le_floor_iff)
      have "z \<le> of_int \<lfloor>x\<rfloor>"
      proof (cases "8388608 \<le> z")
        case True
        then obtain k :: int where k: "z = of_int k"
          using fp24_integer [of z] Suc.prems by fastforce
        then have "k \<le> \<lfloor>x\<rfloor>"
          using Suc.prems(2) by (simp add: le_floor_iff)
        then show ?thesis
          using k by (simp only: of_int_le_iff)
      next
        case False
        have "(8388608::rat) \<le> of_int \<lfloor>x\<rfloor>"
          using fl by (simp only: of_int_le_iff [of 8388608 "\<lfloor>x\<rfloor>", where ?'a = rat, simplified])
        with False show ?thesis
          by linarith
      qed
      also have "(of_int \<lfloor>x\<rfloor> :: rat) \<le> of_int (round_half_even x)"
        using round_half_even_floor [of x] by (simp only: of_int_le_iff)
      finally show ?thesis
        using low False by simp
    qed
  qed
qed

lemma round24_relative: "0 \<le> x \<Longrightarrow> round24 n x \<le> x + x / 16777216"
proof (induction n arbitrary: x)
  case 0
  then show ?case by simp
next
  case (Suc n)
  show ?case
  proof (cases "x < 8388608")
    case True
    have "round24 n (2 * x) \<le> 2 * x + 2 * x / 16777216"
      using Suc.prems by (intro Suc.IH) simp
    with True show ?thesis
      by simp
  next
    case low: False
    show ?thesis
    proof (cases "16777216 \<le> x")
      case True
      have "round24 n (x / 2) \<le> x / 2 + x / 2 / 16777216"
        using Suc.prems by (intro Suc.IH) simp
      with low True show ?thesis
        by simp
    next
      case False
      have "of_int (round_half_even x) \<le> x + 1 / 2"
        by (rule round_half_even_upper)
      also have "\<dots> \<le> x + x / 16777216"
        using low by simp
      finally show ?thesis
        using low False by simp
    qed
  qed
qed

lemma binary32_nonneg: "0 \<le> x \<Longrightarrow> 0 \<le> binary32 x"
  unfolding binary32_def by (simp add: round24_nonneg)

lemma binary32_le_representable: "fp24 z \<Longrightarrow> 0 \<le> x \<Longrightarrow> x \<le> z \<Longrightarrow> binary32 x \<le> z"
  unfolding binary32_def by (auto simp: round24_le_representable)

lemma binary32_exact: "fp24 z \<Longrightarrow> 0 \<le> z \<Longrightarrow> binary32 z = z"
  unfolding binary32_def
  using round24_le_representable [of z z 200] round24_ge_representable [of z z 200] by auto

lemma binary32_relative: "0 \<le> x \<Longrightarrow> binary32 x \<le> x + x / 16777216"
  unfolding binary32_def using round24_relative [of x 200] by auto


lemma fp24_of_nat: "n \<le> 16777216 \<Longrightarrow> fp24 (of_nat n)"
proof (cases "n = 16777216")
  case True
  have "(of_nat n :: rat) = of_int 1 * 2 ^ 24"
    using True by simp
  moreover have "\<bar>1::int\<bar> < 16777216"
    by simp
  ultimately show ?thesis
    unfolding fp24_def by blast
next
  case False
  assume "n \<le> 16777216"
  with False have "\<bar>int n\<bar> < 16777216"
    by simp
  moreover have "(of_nat n :: rat) = of_int (int n) * 2 ^ 0"
    by simp
  ultimately show ?thesis
    unfolding fp24_def by blast
qed

lemma fp24_half_above: "n < 8388608 \<Longrightarrow> fp24 (of_nat n + 1 / 2)"
proof -
  assume "n < 8388608"
  then have "\<bar>2 * int n + 1\<bar> < 16777216"
    by simp
  moreover have "(of_nat n + 1 / 2 :: rat) = of_int (2 * int n + 1) / 2 ^ 1"
    by simp
  ultimately show ?thesis
    unfolding fp24_def by blast
qed

lemma word_of_floor_le:
  fixes W :: u32 and x :: rat
  assumes "0 \<le> x" and "x < rat_of_u32 W + 1"
  shows "(word_of_int \<lfloor>x\<rfloor> :: u32) \<le> W"
proof -
  have lo: "0 \<le> \<lfloor>x\<rfloor>"
    using assms(1) by (simp add: le_floor_iff)
  have "rat_of_u32 W + 1 = of_int (uint W + 1)"
    by (simp add: rat_of_u32_def)
  with assms(2) have "x < of_int (uint W + 1)"
    by simp
  then have "\<lfloor>x\<rfloor> < uint W + 1"
    by (simp only: floor_less_iff)
  then have hi: "\<lfloor>x\<rfloor> \<le> uint W"
    by simp
  have "uint W < 2 ^ 32"
    using uint_lt2p [of W] by simp
  with lo hi have "\<lfloor>x\<rfloor> mod 2 ^ 32 = \<lfloor>x\<rfloor>"
    by (intro mod_pos_pos_trivial) linarith+
  then have "uint (word_of_int \<lfloor>x\<rfloor> :: u32) = \<lfloor>x\<rfloor>"
    by (simp add: uint_word_of_int)
  with hi show ?thesis
    by (simp add: word_le_def)
qed

text \<open>The scaled length of one side: factor \<open>p\<close> is at most the rounded quotient \<open>B / n\<close>.\<close>

lemma scaled_side_in_box:
  fixes B n :: nat and p :: rat
  assumes n: "0 < n" and B: "B < 8388608"
    and p0: "0 \<le> p" and p: "p \<le> binary32 (of_nat B / of_nat n)"
  shows "binary32 (p * of_nat n) < of_nat B + 1"
proof -
  let ?q = "(of_nat B / of_nat n :: rat)"
  have q0: "0 \<le> ?q"
    by simp
  have "p * of_nat n \<le> binary32 ?q * of_nat n"
    by (intro mult_right_mono p) simp
  also have "\<dots> \<le> (?q + ?q / 16777216) * of_nat n"
    by (intro mult_right_mono binary32_relative q0) simp
  also have "\<dots> = of_nat B + of_nat B / 16777216"
    using n by (simp add: field_simps)
  also have "\<dots> \<le> of_nat B + 1 / 2"
  proof -
    have "(of_nat B :: rat) \<le> 8388608"
      using B by (simp add: of_nat_le_iff [of B 8388608, where ?'a = rat, simplified])
    then show ?thesis
      by simp
  qed
  finally have le: "p * of_nat n \<le> of_nat B + 1 / 2" .
  have "0 \<le> p * of_nat n"
    using p0 by simp
  then have "binary32 (p * of_nat n) \<le> of_nat B + 1 / 2"
    using fp24_half_above [OF B] le by (intro binary32_le_representable)
  then show ?thesis
    by simp
qed

lemma scaled_side_not_larger:
  fixes n :: nat and p :: rat
  assumes n: "n \<le> 16777216" and p0: "0 \<le> p" and p1: "p \<le> 1"
  shows "binary32 (p * of_nat n) < of_nat n + 1"
proof -
  have "p * of_nat n \<le> 1 * of_nat n"
    using p1 by (intro mult_right_mono) simp_all
  then have le: "p * of_nat n \<le> of_nat n"
    by simp
  have "0 \<le> p * of_nat n"
    using p0 by simp
  then have "binary32 (p * of_nat n) \<le> of_nat n"
    using fp24_of_nat [OF n] le by (intro binary32_le_representable)
  then show ?thesis
    by simp
qed

lemma quotient_factor_le_one:
  fixes B n :: nat
  assumes "B < n"
  shows "binary32 (of_nat B / of_nat n) \<le> 1"
proof -
  have "fp24 1"
    using fp24_of_nat [of 1] by simp
  moreover have "(of_nat B / of_nat n :: rat) \<le> 1"
    using assms by simp
  moreover have "(0::rat) \<le> of_nat B / of_nat n"
    by simp
  ultimately show ?thesis
    by (intro binary32_le_representable)
qed


lemma binary32_of_nat: "n \<le> 16777216 \<Longrightarrow> binary32 (of_nat n) = of_nat n"
  by (intro binary32_exact fp24_of_nat) simp_all

lemma rat_of_u32_nonneg: "0 \<le> rat_of_u32 w"
  unfolding rat_of_u32_def by (rule of_nat_0_le_iff)

lemma u32_factor_le_one: "W < w \<Longrightarrow> binary32 (rat_of_u32 W / rat_of_u32 w) \<le> 1"
  unfolding rat_of_u32_def by (rule quotient_factor_le_one) (simp add: word_less_nat_alt)

lemma binary32_rat_of_u32: "unat w \<le> 16777216 \<Longrightarrow> binary32 (rat_of_u32 w) = rat_of_u32 w"
  unfolding rat_of_u32_def by (rule binary32_of_nat)

lemma platform1_single: "single_precision platform1"
  unfolding single_precision_def platform1_def by simp


lemma round24_numeral:
  "round24 (numeral k) x =
     (if x < 8388608 then round24 (pred_numeral k) (2 * x) / 2
      else if 16777216 \<le> x then 2 * round24 (pred_numeral k) (x / 2)
      else of_int (round_half_even x))"
  by (simp add: numeral_eq_Suc)

lemma floor_rat_numeral: "\<lfloor>(numeral a / numeral b :: rat)\<rfloor> = numeral a div numeral b"
  using floor_divide_of_int_eq [of "numeral a" "numeral b", where ?'a = rat] by simp

lemmas binary32_eval = binary32_def round24_numeral round_half_even_def floor_rat_numeral

text \<open>One third in binary32 is \<^verbatim>\<open>0x3EAAAAAB\<close>, that is \<open>11184811 / 2^25\<close>.\<close>

lemma binary32_third: "binary32 (1 / 3) = 11184811 / 33554432"
  by (simp add: binary32_eval)

section \<open>The window keeps the highlight visible\<close>

text \<open>
  C1. The claim reads: for every state, every result count above zero and every
  \<^verbatim>\<open>max_results\<close>, after lines 324-335 the highlight lies inside the window,
  \<open>offset \<le> highlight \<le> offset + display_results - 1\<close>, and \<open>display_results \<le> max_results\<close>.
  It fails in three ways: a pass that scrolls down sets \<^verbatim>\<open>display_results\<close> to
  \<open>count - offset\<close> (line 332), which exceeds \<^verbatim>\<open>max_results\<close> unless the highlight is the
  last result; with \<open>max_results = 0\<close> the window is empty; and a 32-bit overflow of
  \<open>offset + display_results\<close> misleads the test of line 330.
\<close>

theorem result_window_counterexample:
  "\<not> (let (g, d) = result_window \<lparr>result_count = 10, result_highlight = 4, result_offset = 0, real_font_size = 12\<rparr> 3
       in unat (result_offset g) \<le> unat (result_highlight g)
        \<and> unat (result_highlight g) < unat (result_offset g) + unat d \<and> d \<le> 3)
   \<and> \<not> (let (g, d) = result_window \<lparr>result_count = 5, result_highlight = 0, result_offset = 0, real_font_size = 12\<rparr> 0
       in unat (result_offset g) \<le> unat (result_highlight g)
        \<and> unat (result_highlight g) < unat (result_offset g) + unat d \<and> d \<le> 0)
   \<and> \<not> (let (g, d) = result_window \<lparr>result_count = 2, result_highlight = 0, result_offset = 4294967294, real_font_size = 12\<rparr> 2
       in unat (result_offset g) \<le> unat (result_highlight g)
        \<and> unat (result_highlight g) < unat (result_offset g) + unat d \<and> d \<le> 2)"
  by (simp add: result_window_def clamp_highlight_def min_macro_def)


text \<open>
  C1, amended. For a result count above zero, \<open>max_results\<close> above zero and no overflow
  in \<open>offset + min count max_results\<close>: after the pass, \<open>offset \<le> highlight\<close> and
  \<open>highlight < offset + display_results\<close> (that is, \<open>highlight \<le> offset + display_results - 1\<close>).
  When the pass does not scroll down, \<open>display_results = min count max_results\<close>, which
  is at most \<open>max_results\<close>; when it scrolls down, \<open>display_results = count - offset\<close>, which
  is \<open>min count max_results\<close> plus the number of results below the highlight.
\<close>

theorem result_window_invariant:
  assumes cpos: "0 < result_count g0" and mpos: "0 < maxr"
    and nowrap: "unat (result_offset g0) + unat (min_macro (result_count g0) maxr) < 2 ^ 32"
    and run: "result_window g0 maxr = (g, display_results)"
  shows "unat (result_offset g) \<le> unat (result_highlight g)
       \<and> unat (result_highlight g) < unat (result_offset g) + unat display_results
       \<and> (if scrolls_down g0 maxr
          then display_results = result_count g - result_offset g
             \<and> unat display_results = unat (min_macro (result_count g0) maxr)
                        + (unat (result_count g0) - 1 - unat (result_highlight g))
          else display_results = min_macro (result_count g0) maxr \<and> display_results \<le> maxr)"
proof -
  define c where "c = clamp_highlight g0"
  define d where "d = min_macro (result_count g0) maxr"
  have hc: "result_highlight c < result_count g0"
    unfolding c_def using cpos by (rule clamp_highlight_less)
  have dpos: "0 < d"
    unfolding d_def using cpos mpos by (rule min_macro_pos)
  have dc: "d \<le> result_count g0" and dm: "d \<le> maxr"
    unfolding d_def by (rule min_macro_le)+
  have dn: "0 < unat d"
    using dpos by (simp add: word_less_nat_alt)
  show ?thesis
  proof (cases "scrolls_down g0 maxr")
    case True
    then have cond: "result_offset g0 + d < result_highlight c + 1"
      unfolding scrolls_down_def c_def d_def Let_def by simp
    have g: "g = c\<lparr>result_offset := result_highlight c - (d - 1)\<rparr>"
      and disp: "display_results = result_count g0 - (result_highlight c - (d - 1))"
      using run result_window_down [OF True] unfolding c_def d_def Let_def by simp_all
    note ar = scroll_down_arith [OF hc dpos dc nowrap [folded d_def] cond]
    have cc: "result_count c = result_count g0"
      unfolding c_def by simp
    have le: "unat (result_highlight c - (d - 1)) \<le> unat (result_highlight c)"
      using ar(1) dn by simp
    show ?thesis
      using True ar g disp cc le by (simp add: d_def [symmetric])
  next
    case False
    then have cond: "\<not> result_offset g0 + d < result_highlight c + 1"
      unfolding scrolls_down_def c_def d_def Let_def by simp
    have g: "g = (if result_highlight c < result_offset c then c\<lparr>result_offset := result_highlight c\<rparr> else c)"
      and disp: "display_results = d"
      using run result_window_stay [OF False] unfolding c_def d_def Let_def by simp_all
    have up: "unat (result_highlight c) < unat (result_offset g0) + unat d"
      using hc nowrap [folded d_def] cond by (rule stay_arith)
    have off: "result_offset c = result_offset g0"
      unfolding c_def by simp
    show ?thesis
      using False g disp dn up dm off by (auto simp: d_def [symmetric] word_less_nat_alt)
  qed
qed


theorem result_window_invariant_witness:
  "0 < (10::u32) \<and> 0 < (3::u32)
   \<and> result_window \<lparr>result_count = 10, result_highlight = 4, result_offset = 0, real_font_size = 12\<rparr> 3
       = (\<lparr>result_count = 10, result_highlight = 4, result_offset = 2, real_font_size = 12\<rparr>, 8)
   \<and> scrolls_down \<lparr>result_count = 10, result_highlight = 4, result_offset = 0, real_font_size = 12\<rparr> 3
   \<and> unat (2::u32) \<le> unat (4::u32) \<and> unat (4::u32) < unat (2::u32) + unat (8::u32)
   \<and> unat (8::u32) = unat (min_macro 10 3) + (unat (10::u32) - 1 - unat (4::u32))"
proof -
  let ?a = "\<lparr>result_count = 10, result_highlight = 4, result_offset = 0, real_font_size = 12\<rparr>"
  let ?b = "\<lparr>result_count = 10, result_highlight = 4, result_offset = 2, real_font_size = 12\<rparr>"
  have c: "0 < result_count ?a" and m: "0 < (3::u32)"
    by simp_all
  have n: "unat (result_offset ?a) + unat (min_macro (result_count ?a) 3) < 2 ^ 32"
    by (simp add: min_macro_def)
  have r: "result_window ?a 3 = (?b, 8)"
    by (simp add: result_window_def clamp_highlight_def min_macro_def)
  have s: "scrolls_down ?a 3"
    by (simp add: scrolls_down_def clamp_highlight_def min_macro_def)
  show ?thesis
    using result_window_invariant [OF c m n r] r s by (simp add: min_macro_def)
qed



section \<open>The clamp of the highlight\<close>

text \<open>
  C2. The claim reads: a highlight at or past the result count on entry is reset to
  \<open>count - 1\<close>, and for an empty result list it is reset to 0 and no row is drawn. For an
  empty list the test of line 324 compares \<open>0 - 1 = 2^32 - 1\<close> with the highlight and never
  holds, so the highlight stays as it was: with no result and the highlight at 3 it is
  still 3 after the pass.
\<close>

theorem highlight_not_reset_counterexample:
  "draw_result_text
      settings0
      \<lparr>result_count = 0, result_highlight = 3, result_offset = 0, real_font_size = 12\<rparr>
     = Some (\<lparr>result_count = 0, result_highlight = 3, result_offset = 4, real_font_size = 12\<rparr>, [])
   \<and> result_highlight \<lparr>result_count = 0, result_highlight = 3, result_offset = 4, real_font_size = 12\<rparr> \<noteq> 0"
  by (simp add: draw_result_text_def settings0_def max_results_def result_window_def clamp_highlight_def
      min_macro_def result_rows.simps)


text \<open>
  C2, amended. After \<^verbatim>\<open>draw_result_text\<close>: a highlight at or past a result count above
  zero is reset to \<open>count - 1\<close>; for an empty result list the highlight is left as it
  is and no row is drawn.
\<close>

theorem highlight_clamped_on_entry:
  assumes "draw_result_text S g0 = Some (g, rows)"
  shows "(0 < result_count g0 \<and> result_count g0 \<le> result_highlight g0
            \<longrightarrow> result_highlight g = result_count g0 - 1)
       \<and> (result_count g0 = 0 \<longrightarrow> result_highlight g = result_highlight g0 \<and> rows = [])"
proof -
  from assms obtain maxr d where w: "result_window g0 maxr = (g, d)"
    and rows: "rows = result_rows (result_offset g + d) (result_highlight g) (result_offset g) 1"
    unfolding draw_result_text_def by (auto split: option.splits prod.splits)
  have hl: "result_highlight g = result_highlight (clamp_highlight g0)"
    using result_window_highlight [of g0 maxr] w by simp
  have a: "result_highlight g = result_count g0 - 1"
    if "0 < result_count g0" and "result_count g0 \<le> result_highlight g0"
  proof -
    have "unat (result_highlight g) = unat (result_count g0) - 1"
      using that clamp_highlight_value [of g0] hl by (simp add: word_le_nat_alt)
    also have "\<dots> = unat (result_count g0 - 1)"
      using that(1) by (simp add: u32_pred)
    finally show ?thesis
      by (simp only: word_unat_eq_iff)
  qed
  have b: "result_highlight g = result_highlight g0 \<and> rows = []"
    if "result_count g0 = 0"
    using that hl rows result_window_bound_empty [OF that w]
    by (simp add: clamp_highlight_empty result_rows_none)
  show ?thesis
    using a b by blast
qed


theorem highlight_clamped_on_entry_witness:
  "draw_result_text
      settings0
      \<lparr>result_count = 3, result_highlight = 7, result_offset = 0, real_font_size = 12\<rparr>
     = Some (\<lparr>result_count = 3, result_highlight = 2, result_offset = 0, real_font_size = 12\<rparr>,
             [(0, 1, False), (1, 2, False), (2, 3, True)])
   \<and> (0::u32) < 3 \<and> (3::u32) \<le> 7 \<and> (2::u32) = 3 - 1
   \<and> draw_result_text
      settings0
      \<lparr>result_count = 0, result_highlight = 3, result_offset = 0, real_font_size = 12\<rparr>
     = Some (\<lparr>result_count = 0, result_highlight = 3, result_offset = 4, real_font_size = 12\<rparr>, [])"
proof -
    let ?a = "\<lparr>result_count = 3, result_highlight = 7, result_offset = 0, real_font_size = 12\<rparr>"
  let ?b = "\<lparr>result_count = 0, result_highlight = 3, result_offset = 0, real_font_size = 12\<rparr>"
  have a: "draw_result_text settings0 ?a
     = Some (\<lparr>result_count = 3, result_highlight = 2, result_offset = 0, real_font_size = 12\<rparr>,
             [(0, 1, False), (1, 2, False), (2, 3, True)])"
    by (simp add: draw_result_text_def settings0_def max_results_def result_window_def clamp_highlight_def
        min_macro_def result_rows.simps)
  have b: "draw_result_text settings0 ?b
     = Some (\<lparr>result_count = 0, result_highlight = 3, result_offset = 4, real_font_size = 12\<rparr>, [])"
    by (simp add: draw_result_text_def settings0_def max_results_def result_window_def clamp_highlight_def
        min_macro_def result_rows.simps)
  show ?thesis
    using highlight_clamped_on_entry [OF a] highlight_clamped_on_entry [OF b] a b by simp
qed


section \<open>Moving the highlight by one row\<close>

text \<open>
  C8. The claim reads: for every state and a fixed result count, changing the highlight
  by exactly one row and running the window computation again changes the offset by at
  most one. It fails for a state whose window does not hold the highlight. The pass for
  20 results with the highlight at 15 leaves the offset at 13; when the result list
  has shrunk to 5 since and the highlight moves by one row, to 14, the pass for the 5
  results drops the offset to 4. And with \<open>max_results = 0\<close> it fails even for a state the
  computation left for the same results: 5 results with the highlight at 1 leave the
  offset at 2, the highlight at 0 then gives the offset 0.
\<close>

theorem scroll_minimality_counterexample:
  "result_window \<lparr>result_count = 20, result_highlight = 15, result_offset = 0, real_font_size = 12\<rparr> 3
       = (\<lparr>result_count = 20, result_highlight = 15, result_offset = 13, real_font_size = 12\<rparr>, 7)
   \<and> \<not> (let g2 = fst (result_window \<lparr>result_count = 5, result_highlight = 14, result_offset = 13, real_font_size = 12\<rparr> 3)
       in unat (result_offset g2) \<le> unat (13::u32) + 1 \<and> unat (13::u32) \<le> unat (result_offset g2) + 1)
   \<and> result_window \<lparr>result_count = 5, result_highlight = 1, result_offset = 0, real_font_size = 12\<rparr> 0
       = (\<lparr>result_count = 5, result_highlight = 1, result_offset = 2, real_font_size = 12\<rparr>, 3)
   \<and> \<not> (let g2 = fst (result_window \<lparr>result_count = 5, result_highlight = 0, result_offset = 2, real_font_size = 12\<rparr> 0)
       in unat (result_offset g2) \<le> unat (2::u32) + 1 \<and> unat (2::u32) \<le> unat (result_offset g2) + 1)"
  by (simp add: result_window_def clamp_highlight_def min_macro_def)

text \<open>
  C8, amended. For a result count above zero and \<open>max_results\<close> above zero: in a state
  left by the window computation for these results (run without overflow in
  \<open>offset + min count max_results\<close>), changing the highlight by exactly one row and running
  the computation again changes the offset by at most one.
\<close>

theorem scroll_minimality:
  assumes cpos: "0 < result_count g0" and mpos: "0 < maxr"
    and nowrap: "unat (result_offset g0) + unat (min_macro (result_count g0) maxr) < 2 ^ 32"
    and run1: "result_window g0 maxr = (g1, d1)"
    and adj: "unat h' = unat (result_highlight g1) + 1 \<or> unat h' + 1 = unat (result_highlight g1)"
    and run2: "result_window (g1\<lparr>result_highlight := h'\<rparr>) maxr = (g2, d2)"
  shows "unat (result_offset g2) \<le> unat (result_offset g1) + 1
       \<and> unat (result_offset g1) \<le> unat (result_offset g2) + 1"
proof -
  define s where "s = g1\<lparr>result_highlight := h'\<rparr>"
  define c where "c = clamp_highlight s"
  define m where "m = min_macro (result_count g0) maxr"
  note post = result_window_post [OF cpos mpos nowrap run1, folded m_def]
  have sc: "result_count s = result_count g0" and so: "result_offset s = result_offset g1"
    unfolding s_def using post(5) by simp_all
  have spos: "0 < result_count s"
    using cpos sc by simp
  have hc: "result_highlight c < result_count g0"
    unfolding c_def using clamp_highlight_less [OF spos] sc by simp
  have hv: "unat (result_highlight c) = min (unat h') (unat (result_count g0) - 1)"
    unfolding c_def using clamp_highlight_value [OF spos] sc by (simp add: s_def)
  have h1n: "unat (result_highlight g1) < unat (result_count g0)"
    using post(4) by (simp add: word_less_nat_alt)
  have near: "unat (result_highlight c) \<le> unat (result_highlight g1) + 1"
    "unat (result_highlight g1) \<le> unat (result_highlight c) + 1"
    using hv adj h1n by auto
  have mpos': "0 < m"
    unfolding m_def using cpos mpos by (rule min_macro_pos)
  have mc: "m \<le> result_count g0"
    unfolding m_def by (rule min_macro_le)
  have mn: "0 < unat m"
    using mpos' by (simp add: word_less_nat_alt)
  have ms: "min_macro (result_count s) maxr = m"
    unfolding m_def sc ..
  show ?thesis
  proof (cases "scrolls_down s maxr")
    case True
    then have cond: "result_offset g1 + m < result_highlight c + 1"
      unfolding scrolls_down_def c_def Let_def by (simp add: ms so)
    have g: "g2 = c\<lparr>result_offset := result_highlight c - (m - 1)\<rparr>"
      using run2 result_window_down [OF True] unfolding c_def s_def [symmetric] Let_def
      by (simp add: ms)
    note ar = scroll_down_arith [OF hc mpos' mc post(3) cond]
    have lt: "unat (result_offset g1) + unat m < unat (result_highlight c) + 1"
      using cond u32_add [OF post(3)] u32_suc [OF hc] by (simp add: word_less_nat_alt)
    show ?thesis
      using ar(1) g lt near post(2) by simp
  next
    case False
    have g: "g2 = (if result_highlight c < result_offset c then c\<lparr>result_offset := result_highlight c\<rparr> else c)"
      using run2 result_window_stay [OF False] unfolding c_def s_def [symmetric] Let_def
      by simp
    have off: "result_offset c = result_offset g1"
      unfolding c_def using so by simp
    show ?thesis
      using g off near post(1) by (auto simp: word_less_nat_alt)
  qed
qed

theorem scroll_minimality_witness:
  "(0::u32) < 5 \<and> (0::u32) < 3
   \<and> result_window \<lparr>result_count = 5, result_highlight = 2, result_offset = 0, real_font_size = 12\<rparr> 3
       = (\<lparr>result_count = 5, result_highlight = 2, result_offset = 0, real_font_size = 12\<rparr>, 3)
   \<and> unat (3::u32) = unat (2::u32) + 1
   \<and> result_window \<lparr>result_count = 5, result_highlight = 3, result_offset = 0, real_font_size = 12\<rparr> 3
       = (\<lparr>result_count = 5, result_highlight = 3, result_offset = 1, real_font_size = 12\<rparr>, 4)
   \<and> unat (1::u32) \<le> unat (0::u32) + 1 \<and> unat (0::u32) \<le> unat (1::u32) + 1"
proof -
  let ?a = "\<lparr>result_count = 5, result_highlight = 2, result_offset = 0, real_font_size = 12\<rparr>"
  let ?b = "\<lparr>result_count = 5, result_highlight = 3, result_offset = 1, real_font_size = 12\<rparr>"
  have c: "0 < result_count ?a" and m: "0 < (3::u32)"
    by simp_all
  have n: "unat (result_offset ?a) + unat (min_macro (result_count ?a) 3) < 2 ^ 32"
    by (simp add: min_macro_def)
  have r1: "result_window ?a 3 = (?a, 3)"
    by (simp add: result_window_def clamp_highlight_def min_macro_def)
  have adj: "unat (3::u32) = unat (result_highlight ?a) + 1 \<or> unat (3::u32) + 1 = unat (result_highlight ?a)"
    by simp
  have r2: "result_window (?a\<lparr>result_highlight := 3\<rparr>) 3 = (?b, 4)"
    by (simp add: result_window_def clamp_highlight_def min_macro_def)
  show ?thesis
    using scroll_minimality [OF c m n r1 adj r2] r1 r2 by simp
qed



section \<open>The cursor of the query line\<close>

text \<open>
  C3. The claim reads: for every query text and every cursor index within it, the
  cursor position that \<^verbatim>\<open>draw_typed_line\<close> computes satisfies \<open>0 \<le> cursor_x < width\<close>; a text
  measured wider than the row moves the origin to \<open>width - x_advance\<close>; and a negative
  \<open>cursor_x\<close> moves the origin right by the deficit plus a fixed margin and becomes 0.
  The upper bound fails. With ten pixels a character and a row of 100: the eleven
  characters of \<open>hello world\<close> are wider than the row, the origin moves to \<open>100 - 110\<close>, and
  the cursor at the end lands on \<open>110 - 10 = 100\<close>, the row width itself; ten characters
  fit, the origin stays at the padding 5, and the cursor at the end lands on 105.
\<close>

theorem typed_line_cursor_counterexample:
  "\<not> (let (offset, cursor_x) = typed_line_cursor platform0 settings0 global0 [] ''hello world'' 0 11
       in 0 \<le> sint cursor_x \<and> sint cursor_x < uint (width settings0))
   \<and> \<not> (let (offset, cursor_x) = typed_line_cursor platform0 settings0 global0 [] ''0123456789'' 0 10
       in 0 \<le> sint cursor_x \<and> sint cursor_x < uint (width settings0))"
  by (simp add: typed_line_cursor_def typed_line_origin_def calculate_line_offset_def
      platform0_def settings0_def global0_def length_extents_def)



text \<open>
  C3, amended. The cursor position is never negative (there is no upper bound). The
  origin is \<open>width - x_advance\<close> of the whole text, as the platform converts it to
  \<^verbatim>\<open>uint32_t\<close>, when the text is measured wider than the row, and the horizontal padding
  otherwise. When the advance up to the cursor plus the origin is negative as an
  \<^verbatim>\<open>int32_t\<close>, the origin moves right by that deficit plus 3 and the cursor position is
  0; otherwise both stay.
\<close>

theorem typed_line_cursor_bounds:
  assumes run: "typed_line_cursor P S G cr text line cursor = (offset, cursor_x)"
    and origin: "origin = typed_line_origin P S G cr text line"
    and cand: "cand = i32_of_double P (ext_x_advance (cairo_text_extents P cr (Some (take (unat cursor) text))))
                 + off_x origin"
  shows "0 \<le> sint cursor_x
       \<and> off_x origin =
           (if double_less P (double_of_u32 P (width S)) (ext_width (cairo_text_extents P cr (Some text)))
            then u32_of_double P (double_sub P (double_of_u32 P (width S))
                   (ext_x_advance (cairo_text_extents P cr (Some text))))
            else horiz_padding S)
       \<and> (if sint cand < 0
          then cursor_x = 0 \<and> off_x offset = off_x origin + (0 - cand) + 3
          else cursor_x = cand \<and> offset = origin)"
  using run unfolding origin cand typed_line_cursor_def typed_line_origin_def
    calculate_line_offset_def Let_def
  by (auto split: if_splits)

theorem typed_line_cursor_bounds_witness:
  "typed_line_cursor platform0 settings0 global0 [] ''hello world, hello world'' 0 2
     = (\<lparr>off_x = 4294967279, off_y = 15, off_image_y = 0\<rparr>, 0)
   \<and> typed_line_origin platform0 settings0 global0 [] ''hello world, hello world'' 0
     = \<lparr>off_x = 4294967156, off_y = 15, off_image_y = 0\<rparr>
   \<and> sint (20 + 4294967156 :: u32) < 0
   \<and> 0 \<le> sint (0 :: u32)
   \<and> (4294967279 :: u32) = 4294967156 + (0 - (20 + 4294967156)) + 3
   \<and> typed_line_cursor platform0 settings0 global0 [] ''hello'' 0 5
     = (\<lparr>off_x = 5, off_y = 15, off_image_y = 0\<rparr>, 55)
   \<and> 0 \<le> sint (55 :: u32)"
proof -
  let ?t = "''hello world, hello world''"
  have run: "typed_line_cursor platform0 settings0 global0 [] ?t 0 2
     = (\<lparr>off_x = 4294967279, off_y = 15, off_image_y = 0\<rparr>, 0)"
    by (simp add: typed_line_cursor_def typed_line_origin_def calculate_line_offset_def
        platform0_def settings0_def global0_def length_extents_def)
  have origin: "\<lparr>off_x = 4294967156, off_y = 15, off_image_y = 0\<rparr>
     = typed_line_origin platform0 settings0 global0 [] ?t 0"
    by (simp add: typed_line_origin_def calculate_line_offset_def
        platform0_def settings0_def global0_def length_extents_def)
  have cand: "(20 + 4294967156 :: u32)
     = i32_of_double platform0
         (ext_x_advance (cairo_text_extents platform0 [] (Some (take (unat (2 :: u32)) ?t))))
       + off_x \<lparr>off_x = 4294967156, off_y = 15, off_image_y = 0\<rparr>"
    by (simp add: platform0_def length_extents_def)
  have run2: "typed_line_cursor platform0 settings0 global0 [] ''hello'' 0 5
     = (\<lparr>off_x = 5, off_y = 15, off_image_y = 0\<rparr>, 55)"
    by (simp add: typed_line_cursor_def typed_line_origin_def calculate_line_offset_def
        platform0_def settings0_def global0_def length_extents_def)
  show ?thesis
    using typed_line_cursor_bounds [OF run origin cand]
      typed_line_cursor_bounds [OF run2 refl refl] run run2 origin [symmetric]
    by simp
qed



section \<open>Line breaks in the description\<close>

text \<open>
  C5. The claim reads: in the loop of \<^verbatim>\<open>draw_desc\<close> a break is forced exactly when, after
  a token was drawn, \<open>x + font_size\<close> exceeds the right edge of the panel, and the forced
  break does what an explicit line break does: \<open>x\<close> goes back to the left edge and \<open>y\<close> and
  \<open>image_y\<close> advance by one line height. The test runs after each token, as claimed, but
  the two breaks of \<^verbatim>\<open>draw_desc\<close> do not advance alike: the forced one (lines 308-310)
  adds \<^verbatim>\<open>global.real_font_size\<close>, the explicit one (lines 293-295) adds
  \<^verbatim>\<open>settings.font_size\<close>. For the description \<open>abcd\<close>, in a font of size 12 whose
  characters are 15 pixels high, the text ends at \<open>x = 142\<close>, and \<open>142 + 12\<close> exceeds the
  right edge 150: the forced break leaves the offset \<open>(100, 30, 15)\<close>, where an explicit
  break at the same place gives \<open>(100, 27, 12)\<close>.
\<close>

theorem desc_forced_break_divergence:
  "draw_desc (Suc (Suc 0)) platform0 settings0 global0 [] (Some ''abcd'') white black
     = Some (\<lparr>off_x = 100, off_y = 30, off_image_y = 15\<rparr>,
             [cairo_set_source_rgb black, cairo_rectangle 102 0 150 80, cairo_stroke_preserve, cairo_fill,
              cairo_move_to 102 15, cairo_set_source_rgb white,
              cairo_select_font_face CAIRO_FONT_WEIGHT_NORMAL, cairo_set_font_size 12,
              cairo_show_text (Some ''abcd'')])
   \<and> fst (draw_desc_token platform0 settings0 global0 white \<lparr>d_type = DRAW_TEXT, d_data = Some ''abcd''\<rparr>
        \<lparr>off_x = 102, off_y = 15, off_image_y = 0\<rparr> [])
      = \<lparr>off_x = 142, off_y = 15, off_image_y = 0\<rparr>
   \<and> desc_overflows settings0 \<lparr>off_x = 142, off_y = 15, off_image_y = 0\<rparr>
   \<and> desc_wrap settings0 global0 \<lparr>off_x = 142, off_y = 15, off_image_y = 0\<rparr>
      = \<lparr>off_x = 100, off_y = 30, off_image_y = 15\<rparr>
   \<and> draw_desc_token platform0 settings0 global0 white \<lparr>d_type = NEW_LINE, d_data = Some []\<rparr>
        \<lparr>off_x = 142, off_y = 15, off_image_y = 0\<rparr> []
      = (\<lparr>off_x = 100, off_y = 27, off_image_y = 12\<rparr>, [])"
  by (simp add: draw_desc_def draw_desc_token_def draw_text_def desc_height_def desc_wrap_def
      desc_overflows_def desc_forced_break_def desc_new_line_def
      settings0_def global0_def platform0_def marker_tokens_def plain_def length_extents_def)


section \<open>An image in the description\<close>

text \<open>
  C6. The claim reads: for an image token in \<^verbatim>\<open>draw_desc\<close> the image is scaled to fit the
  box of the panel width and the panel height less \<open>image_y\<close>, and drawn at \<open>(x, image_y)\<close>;
  then \<open>image_y\<close> advances by the height drawn, \<open>y\<close> is set to the new \<open>image_y\<close>, and \<open>x\<close>
  advances by the width drawn. The panel is as high as the window, which line 344 sets
  to \<open>min (height * (result_count + 1)) max_height\<close>; \<^verbatim>\<open>draw_desc\<close> computes the height
  again in line 268, without the minimum, and scales the image to that. With rows 20
  high, a window at most 80 high, a panel 400 wide and 10 results, the window is 80 high
  and the image of 800 by 600 at the top of the description is scaled to the box 400 by
  220: it is drawn 293 by 220 at \<open>(102, 0)\<close>, where the box 400 by 80 gives 106 by 80. The
  offsets move as claimed, by the size drawn.
\<close>

theorem desc_image_exceeds_window:
  "new_height (settings0\<lparr>desc_size := 400\<rparr>) (global0\<lparr>result_count := 10\<rparr>) = 80
   \<and> desc_height (settings0\<lparr>desc_size := 400\<rparr>) (global0\<lparr>result_count := 10\<rparr>) = 220
   \<and> draw_desc (Suc (Suc 0)) platform1 (settings0\<lparr>desc_size := 400\<rparr>) (global0\<lparr>result_count := 10\<rparr>)
        [] (Some ''#x.png'') white black
      = Some (\<lparr>off_x = 395, off_y = 220, off_image_y = 220\<rparr>,
              [cairo_set_source_rgb black, cairo_rectangle 102 0 500 220, cairo_stroke_preserve, cairo_fill,
               cairo_set_source_surface (Some ''x.png'') \<lparr>img_width = 293, img_height = 220\<rparr> 102 0,
               cairo_mask_surface (Some ''x.png'') \<lparr>img_width = 293, img_height = 220\<rparr> 102 0])
   \<and> scale_format platform1 \<lparr>img_width = 800, img_height = 600\<rparr> 400 (80 - 0)
      = \<lparr>img_width = 106, img_height = 80\<rparr>"
proof -
  let ?S = "settings0\<lparr>desc_size := 400\<rparr>"
  let ?G = "global0\<lparr>result_count := 10\<rparr>"
  let ?o = "\<lparr>off_x = 102, off_y = 15, off_image_y = 0\<rparr>"
  let ?f = "\<lparr>img_width = 293, img_height = 220\<rparr>"
  let ?cr = "[cairo_set_source_rgb black, cairo_rectangle 102 0 500 220, cairo_stroke_preserve, cairo_fill]"
  have nh: "new_height ?S ?G = 80"
    by (simp add: new_height_def min_macro_def settings0_def global0_def)
  have dh: "desc_height ?S ?G = 220"
    by (simp add: desc_height_def settings0_def global0_def)
  have sc: "scale_format platform1 \<lparr>img_width = 800, img_height = 600\<rparr> 400 220 = ?f"
    by (simp add: scale_format_def platform1_def float_min_def rat_of_u32_def binary32_eval)
  have sc': "scale_format platform1 \<lparr>img_width = 800, img_height = 600\<rparr> 400 (80 - 0)
      = \<lparr>img_width = 106, img_height = 80\<rparr>"
    by (simp add: scale_format_def platform1_def float_min_def rat_of_u32_def binary32_eval)
  have ex: "expanded_file platform1 (Some ''x.png'') = Some ''x.png''"
    by (simp add: expanded_file_def platform1_def platform0_def)
  have acc: "access platform1 (expanded_file platform1 (Some ''x.png''))"
    unfolding ex by (simp add: platform1_def platform0_def)
  have nf: "natural_format platform1 (Some ''x.png'') = \<lparr>img_width = 800, img_height = 600\<rparr>"
    by (simp add: natural_format_def platform1_def platform0_def)
  have im: "draw_image platform1 ?cr (Some ''x.png'') ?o 400 220
      = (?f, ?cr @ [cairo_set_source_surface (Some ''x.png'') ?f 102 0,
                    cairo_mask_surface (Some ''x.png'') ?f 102 0])"
    by (simp add: draw_image_present [OF acc] ex nf sc)
  have tok: "parse_result_line platform1 ?cr ''#x.png'' budget
      = (\<lparr>d_type = DRAW_IMAGE, d_data = Some ''x.png''\<rparr>, [])" for budget
    by (simp add: platform1_def platform0_def marker_tokens_def)
  have ds: "desc_size ?S = 400"
    by simp
  have step: "draw_desc_token platform1 ?S ?G white \<lparr>d_type = DRAW_IMAGE, d_data = Some ''x.png''\<rparr> ?o ?cr
      = (\<lparr>off_x = 395, off_y = 220, off_image_y = 220\<rparr>,
         ?cr @ [cairo_set_source_surface (Some ''x.png'') ?f 102 0,
                cairo_mask_surface (Some ''x.png'') ?f 102 0])"
    unfolding draw_desc_token_def by (simp add: dh ds im del: append.simps)
  have wrap: "desc_wrap ?S ?G \<lparr>off_x = 395, off_y = 220, off_image_y = 220\<rparr>
      = \<lparr>off_x = 395, off_y = 220, off_image_y = 220\<rparr>"
    by (simp add: desc_wrap_def desc_overflows_def settings0_def)
  have loop: "draw_desc_loop (Suc (Suc 0)) platform1 ?S ?G white ''#x.png'' ?o ?cr
      = Some (\<lparr>off_x = 395, off_y = 220, off_image_y = 220\<rparr>,
              ?cr @ [cairo_set_source_surface (Some ''x.png'') ?f 102 0,
                     cairo_mask_surface (Some ''x.png'') ?f 102 0])"
    by (simp add: tok step wrap)
  have start: "draw_desc (Suc (Suc 0)) platform1 ?S ?G [] (Some ''#x.png'') white black
      = draw_desc_loop (Suc (Suc 0)) platform1 ?S ?G white ''#x.png'' ?o ?cr"
    unfolding draw_desc_def dh by (simp add: settings0_def global0_def)
  have run: "draw_desc (Suc (Suc 0)) platform1 ?S ?G [] (Some ''#x.png'') white black
      = Some (\<lparr>off_x = 395, off_y = 220, off_image_y = 220\<rparr>,
              ?cr @ [cairo_set_source_surface (Some ''x.png'') ?f 102 0,
                     cairo_mask_surface (Some ''x.png'') ?f 102 0])"
    unfolding start by (rule loop)
  show ?thesis
    using nh dh run sc' by simp
qed



section \<open>A missing image in a result line\<close>

text \<open>
  C7. For an image token of \<^verbatim>\<open>draw_line\<close> whose file is absent (\<^verbatim>\<open>access\<close> fails) or cannot
  be read (cairo yields its error surface): \<^verbatim>\<open>draw_image\<close> returns the format \<open>{0, 0}\<close>, the
  offset of the line does not move, and the loop goes on with the rest of the text at
  that offset; for an absent file nothing is drawn either. No outcome of the loop is an
  error, and with a tokenizer that consumes text the loop returns.
\<close>

theorem missing_image_in_line:
  assumes ne: "c \<noteq> []"
    and tok: "parse_result_line P cr c (width S - off_x offset) = (d, c')"
    and ty: "d_type d = DRAW_IMAGE"
    and nn: "d_data d \<noteq> None"
    and miss: "\<not> access P (expanded_file P (d_data d)) \<or> png_size P (expanded_file P (d_data d)) = None"
  shows "fst (draw_image P cr (d_data d) offset win_size_x win_size_y) = \<lparr>img_width = 0, img_height = 0\<rparr>
       \<and> fst (draw_line_token P S foreground d offset cr) = offset
       \<and> draw_line_loop (Suc n) P S foreground c offset cr
           = draw_line_loop n P S foreground c' offset (snd (draw_line_token P S foreground d offset cr))
       \<and> (\<not> access P (expanded_file P (d_data d))
            \<longrightarrow> snd (draw_line_token P S foreground d offset cr) = cr)
       \<and> (tokenizer_consumes P
            \<longrightarrow> (\<exists>r. draw_line_loop (Suc (length c)) P S foreground c offset cr = Some r))"
proof -
  have zero: "fst (draw_image P cr (d_data d) offset wx wy) = \<lparr>img_width = 0, img_height = 0\<rparr>"
    for wx wy
    using miss by (rule draw_image_unreadable)
  have same: "fst (draw_line_token P S foreground d offset cr) = offset"
    by (simp add: draw_line_token_image [OF ty] zero)
  have loop: "draw_line_loop (Suc n) P S foreground c offset cr
           = draw_line_loop n P S foreground c' offset (snd (draw_line_token P S foreground d offset cr))"
    using ne tok nn same by (cases "draw_line_token P S foreground d offset cr") auto
  have quiet: "snd (draw_line_token P S foreground d offset cr) = cr"
    if "\<not> access P (expanded_file P (d_data d))"
    using that by (simp add: draw_line_token_image [OF ty] draw_image_absent)
  have total: "\<exists>r. draw_line_loop (Suc (length c)) P S foreground c offset cr = Some r"
    if "tokenizer_consumes P"
    using that by (rule draw_line_loop_returns) simp
  show ?thesis
    using zero same loop quiet total by blast
qed

theorem missing_image_in_line_witness:
  "parse_result_line platform0 [] ''#y.png long'' (width settings0 - 25)
      = (\<lparr>d_type = DRAW_IMAGE, d_data = Some ''y.png''\<rparr>, '' long'')
   \<and> \<not> access platform0 (expanded_file platform0 (Some ''y.png''))
   \<and> tokenizer_consumes platform0
   \<and> fst (draw_image platform0 [] (Some ''y.png'') \<lparr>off_x = 25, off_y = 35, off_image_y = 20\<rparr> 75 20)
      = \<lparr>img_width = 0, img_height = 0\<rparr>
   \<and> draw_line_loop (Suc (Suc (Suc 0))) platform0 settings0 white ''#y.png long''
        \<lparr>off_x = 25, off_y = 35, off_image_y = 20\<rparr> []
      = draw_line_loop (Suc (Suc 0)) platform0 settings0 white '' long''
        \<lparr>off_x = 25, off_y = 35, off_image_y = 20\<rparr> []
   \<and> draw_line_loop (Suc (length ''#y.png long'')) platform0 settings0 white ''#y.png long''
        \<lparr>off_x = 25, off_y = 35, off_image_y = 20\<rparr> []
      = Some (\<lparr>off_x = 75, off_y = 35, off_image_y = 20\<rparr>,
              [cairo_move_to 25 35, cairo_set_source_rgb white,
               cairo_select_font_face CAIRO_FONT_WEIGHT_NORMAL, cairo_set_font_size 12,
               cairo_show_text (Some '' long'')])"
proof -
  let ?o = "\<lparr>off_x = 25, off_y = 35, off_image_y = 20\<rparr>"
  let ?d = "\<lparr>d_type = DRAW_IMAGE, d_data = Some ''y.png''\<rparr>"
  have ne: "''#y.png long'' \<noteq> []"
    by simp
  have tok: "parse_result_line platform0 [] ''#y.png long'' (width settings0 - off_x ?o) = (?d, '' long'')"
    by code_simp
  have ty: "d_type ?d = DRAW_IMAGE" and nn: "d_data ?d \<noteq> None"
    by simp_all
  have absent: "\<not> access platform0 (expanded_file platform0 (d_data ?d))"
    by code_simp
  then have miss: "\<not> access platform0 (expanded_file platform0 (d_data ?d))
       \<or> png_size platform0 (expanded_file platform0 (d_data ?d)) = None"
    by simp
  have val: "draw_line_loop (Suc (length ''#y.png long'')) platform0 settings0 white ''#y.png long'' ?o []
      = Some (\<lparr>off_x = 75, off_y = 35, off_image_y = 20\<rparr>,
              [cairo_move_to 25 35, cairo_set_source_rgb white,
               cairo_select_font_face CAIRO_FONT_WEIGHT_NORMAL, cairo_set_font_size 12,
               cairo_show_text (Some '' long'')])"
    by code_simp
  show ?thesis
    using missing_image_in_line [OF ne tok ty nn miss, of 75 20 white "Suc (Suc 0)"]
      tok absent platform0_consumes val
    by (simp del: draw_line_loop.simps)
qed


section \<open>The background of a row\<close>

text \<open>
  C9. The claim reads: every row drawn by \<^verbatim>\<open>draw_typed_line\<close> or \<^verbatim>\<open>draw_line\<close> gets exactly
  one background fill before any token is drawn, covering the row's rectangle: from its
  top edge, the full width, one row height. \<^verbatim>\<open>draw_line\<close> starts the fill 2 pixels below
  the top edge of the row (line 220 and the comment above it), and passes
  \<open>(line + 1) * height\<close> as the height of the rectangle: result line 1 of rows 20 high is
  filled from 22, 40 high.
\<close>

theorem row_background_fill_counterexample:
  "draw_line (Suc 0) platform0 settings0 global0 [] (Some []) 1 white black
     = Some (\<lparr>off_x = 5, off_y = 35, off_image_y = 20\<rparr>,
             [cairo_set_source_rgb black, cairo_rectangle 0 22 100 40, cairo_stroke_preserve, cairo_fill])
   \<and> cairo_rectangle 0 22 100 40
       \<noteq> cairo_rectangle 0 (uint (1 * height settings0)) (uint (width settings0)) (uint (height settings0))"
  by (simp add: draw_line_def calculate_line_offset_def settings0_def global0_def)


text \<open>
  C9, amended. Every row gets exactly one background fill, issued before any token is
  drawn, in the background colour of the row, from \<open>x = 0\<close> over the full row width. For
  the query line the rectangle is the row: top edge 0, one row height. For a result
  line drawn by \<^verbatim>\<open>draw_line\<close> the rectangle is
  \<open>(0, line * height + 2, width, (line + 1) * height)\<close>: when nothing wraps, the fill starts
  2 pixels below the top edge of the row and reaches its bottom edge
  \<open>(line + 1) * height\<close>, and beyond. \<^verbatim>\<open>draw_line\<close> issues the fill before its loop, returns
  for a tokenizer that consumes text, and no call of the loop is a fill.
\<close>

theorem row_background_fill:
  "(tokenizer_consumes P \<longrightarrow>
      (\<exists>offset' rest.
          draw_line (Suc (length (case text of None \<Rightarrow> [] | Some s \<Rightarrow> s))) P S G cr text line
              foreground background
            = Some (offset',
                    cr @ [cairo_set_source_rgb background,
                          cairo_rectangle 0 (uint (line * height S + 2)) (uint (width S))
                            (uint ((line + 1) * height S)),
                          cairo_stroke_preserve, cairo_fill] @ rest)
          \<and> cairo_fill \<notin> set rest))
   \<and> (draw_line n P S G cr text line foreground background = Some (offset1, cr1) \<longrightarrow>
        (\<exists>rest. cr1 = cr @ [cairo_set_source_rgb background,
                               cairo_rectangle 0 (uint (line * height S + 2)) (uint (width S))
                                 (uint ((line + 1) * height S)),
                               cairo_stroke_preserve, cairo_fill] @ rest
                \<and> cairo_fill \<notin> set rest))
   \<and> ((unat line + 1) * unat (height S) + 2 < 2 ^ 32 \<longrightarrow>
        uint (line * height S + 2) = uint line * uint (height S) + 2
        \<and> uint ((line + 1) * height S) = (uint line + 1) * uint (height S)
        \<and> (uint line + 1) * uint (height S)
             \<le> uint (line * height S + 2) + uint ((line + 1) * height S))
   \<and> (\<exists>rest. snd (snd (draw_query_text P S G cr0 query cursor))
                 = cr0 @ [cairo_set_source_rgb (query_bg S),
                          cairo_rectangle 0 0 (uint (width S)) (uint (height S)),
                          cairo_stroke_preserve, cairo_fill] @ rest
              \<and> cairo_fill \<notin> set (takeWhile (\<lambda>call. \<not> is_render call) rest)
              \<and> cairo_show_text (Some query) \<in> set rest)"
proof -
  let ?fill = "[cairo_set_source_rgb background,
                cairo_rectangle 0 (uint (line * height S + 2)) (uint (width S))
                  (uint ((line + 1) * height S)),
                cairo_stroke_preserve, cairo_fill]"
  let ?c = "case text of None \<Rightarrow> [] | Some s \<Rightarrow> s"
  have shape: "\<exists>rest. cr' = cr @ ?fill @ rest \<and> cairo_fill \<notin> set rest"
    if res: "draw_line m P S G cr text line foreground background = Some (offset', cr')"
    for m offset' cr'
  proof -
    obtain rest where "cr' = (cr @ ?fill) @ rest" and "cairo_fill \<notin> set rest"
      using res draw_line_loop_calls unfolding draw_line_def by blast
    then show ?thesis
      by auto
  qed
  have total: "\<exists>offset' rest.
          draw_line (Suc (length ?c)) P S G cr text line foreground background
            = Some (offset', cr @ ?fill @ rest)
          \<and> cairo_fill \<notin> set rest"
    if consumes: "tokenizer_consumes P"
  proof -
    have "length ?c < Suc (length ?c)"
      by simp
    then have "\<exists>r. draw_line (Suc (length ?c)) P S G cr text line foreground background = Some r"
      unfolding draw_line_def by (rule draw_line_loop_returns [OF consumes])
    then obtain offset' cr' where
      r: "draw_line (Suc (length ?c)) P S G cr text line foreground background = Some (offset', cr')"
      by auto
    from shape [OF r] r show ?thesis
      by auto
  qed
  have cover: "uint (line * height S + 2) = uint line * uint (height S) + 2
        \<and> uint ((line + 1) * height S) = (uint line + 1) * uint (height S)
        \<and> (uint line + 1) * uint (height S)
             \<le> uint (line * height S + 2) + uint ((line + 1) * height S)"
    if bound: "(unat line + 1) * unat (height S) + 2 < 2 ^ 32"
  proof -
    have "0 \<le> uint line * uint (height S)"
      by simp
    then show ?thesis
      using row_rectangle_arith [OF bound] by simp
  qed
  have query: "\<exists>rest. snd (snd (draw_query_text P S G cr0 query cursor))
                 = cr0 @ [cairo_set_source_rgb (query_bg S),
                          cairo_rectangle 0 0 (uint (width S)) (uint (height S)),
                          cairo_stroke_preserve, cairo_fill] @ rest
              \<and> cairo_fill \<notin> set (takeWhile (\<lambda>call. \<not> is_render call) rest)
              \<and> cairo_show_text (Some query) \<in> set rest"
    unfolding draw_query_text_def draw_typed_line_def
    by (auto simp: Let_def split: prod.splits if_splits)
  show ?thesis
    using shape total cover query by blast
qed

theorem row_background_fill_witness:
  "tokenizer_consumes platform0
   \<and> draw_line (Suc (length ''ab'')) platform0 settings0 global0 [] (Some ''ab'') 1 white black
     = Some (\<lparr>off_x = 25, off_y = 35, off_image_y = 20\<rparr>,
             [] @ [cairo_set_source_rgb black, cairo_rectangle 0 22 100 40, cairo_stroke_preserve, cairo_fill]
             @ [cairo_move_to 5 35, cairo_set_source_rgb white,
                cairo_select_font_face CAIRO_FONT_WEIGHT_NORMAL, cairo_set_font_size 12,
                cairo_show_text (Some ''ab'')])
   \<and> (unat (1::u32) + 1) * unat (height settings0) + 2 < 2 ^ 32
   \<and> uint (1 * height settings0 + 2) = 1 * 20 + 2
   \<and> uint ((1 + 1) * height settings0) = (1 + 1) * 20
   \<and> (1 + 1) * (20::int) \<le> 22 + 40
   \<and> draw_query_text platform0 settings0 global0 [] ''ab'' 2
     = (\<lparr>off_x = 5, off_y = 15, off_image_y = 0\<rparr>, 25,
        [] @ [cairo_set_source_rgb black, cairo_rectangle 0 0 100 20, cairo_stroke_preserve, cairo_fill]
        @ [cairo_set_source_rgb white, cairo_select_font_face CAIRO_FONT_WEIGHT_NORMAL,
           cairo_move_to 5 15, cairo_set_font_size 12, cairo_show_text (Some ''ab''),
           cairo_set_source_rgb white, cairo_rectangle 27 2 0 14, cairo_stroke_preserve, cairo_fill])"
proof -
  have a: "draw_line (Suc (length ''ab'')) platform0 settings0 global0 [] (Some ''ab'') 1 white black
     = Some (\<lparr>off_x = 25, off_y = 35, off_image_y = 20\<rparr>,
             [cairo_set_source_rgb black, cairo_rectangle 0 22 100 40, cairo_stroke_preserve, cairo_fill,
              cairo_move_to 5 35, cairo_set_source_rgb white,
              cairo_select_font_face CAIRO_FONT_WEIGHT_NORMAL, cairo_set_font_size 12,
              cairo_show_text (Some ''ab'')])"
    by code_simp
  have b: "draw_query_text platform0 settings0 global0 [] ''ab'' 2
     = (\<lparr>off_x = 5, off_y = 15, off_image_y = 0\<rparr>, 25,
        [cairo_set_source_rgb black, cairo_rectangle 0 0 100 20, cairo_stroke_preserve, cairo_fill,
         cairo_set_source_rgb white, cairo_select_font_face CAIRO_FONT_WEIGHT_NORMAL,
         cairo_move_to 5 15, cairo_set_font_size 12, cairo_show_text (Some ''ab''),
         cairo_set_source_rgb white, cairo_rectangle 27 2 0 14, cairo_stroke_preserve, cairo_fill])"
    by code_simp
  have h: "height settings0 = 20"
    by (simp add: settings0_def)
  have bound: "(unat (1::u32) + 1) * unat (height settings0) + 2 < 2 ^ 32"
    by (simp add: h)
  show ?thesis
    using row_background_fill [of platform0 "Some ''ab''" settings0 global0 "[]" 1 white black
        "Suc (length ''ab'')" "\<lparr>off_x = 25, off_y = 35, off_image_y = 20\<rparr>" _ "[]" "''ab''" 2]
      platform0_consumes a b bound
    by (simp add: h del: draw_line_loop.simps)
qed


section \<open>A token without data\<close>

text \<open>
  C10. When the tokenizer yields a token whose data is null, the loop of \<^verbatim>\<open>draw_line\<close>
  stops there and draws nothing more. The loop of \<^verbatim>\<open>draw_desc\<close> has no such test: when
  the tokenizer yields it a token whose data is null, it hands the null data to
  \<^verbatim>\<open>draw_image\<close> or \<^verbatim>\<open>draw_text\<close> (which shows it) and goes on. Each loop calls the
  tokenizer with its own budget, so each half stands on what the tokenizer yields in
  that loop.
\<close>

theorem null_token_data:
  "(c \<noteq> [] \<and> d_data (fst (parse_result_line P cr c (width S - off_x offset))) = None
      \<longrightarrow> draw_line_loop (Suc n) P S foreground c offset cr = Some (offset, cr))
   \<and> (c2 \<noteq> [] \<and> parse_result_line P cr2 c2 (desc_size S + width S - off_x offset2) = (e, c2')
         \<and> d_data e = None
      \<longrightarrow> draw_desc_loop (Suc m) P S G foreground c2 offset2 cr2
            = draw_desc_loop m P S G foreground c2'
                (desc_wrap S G (fst (draw_desc_token P S G foreground e offset2 cr2)))
                (snd (draw_desc_token P S G foreground e offset2 cr2))
          \<and> (d_type e = DRAW_IMAGE \<longrightarrow>
                snd (draw_desc_token P S G foreground e offset2 cr2)
                  = snd (draw_image P cr2 None offset2 (desc_size S)
                           (desc_height S G - off_image_y offset2)))
          \<and> (d_type e = BOLD \<or> d_type e = DRAW_TEXT \<or> d_type e = OTHER \<longrightarrow>
                snd (draw_desc_token P S G foreground e offset2 cr2)
                  = cr2 @ [cairo_move_to (uint (off_x offset2)) (uint (off_y offset2)),
                           cairo_set_source_rgb foreground,
                           cairo_select_font_face
                             (if d_type e = BOLD then CAIRO_FONT_WEIGHT_BOLD
                              else CAIRO_FONT_WEIGHT_NORMAL),
                           cairo_set_font_size (font_size S),
                           cairo_show_text None]))"
proof -
  have a: "draw_line_loop (Suc n) P S foreground c offset cr = Some (offset, cr)"
    if "c \<noteq> []" and "d_data (fst (parse_result_line P cr c (width S - off_x offset))) = None"
    using that by (simp add: case_prod_beta)
  have b: "draw_desc_loop (Suc m) P S G foreground c2 offset2 cr2
           = draw_desc_loop m P S G foreground c2'
               (desc_wrap S G (fst (draw_desc_token P S G foreground e offset2 cr2)))
               (snd (draw_desc_token P S G foreground e offset2 cr2))"
    if "c2 \<noteq> []"
      and "parse_result_line P cr2 c2 (desc_size S + width S - off_x offset2) = (e, c2')"
    using that by (simp add: case_prod_beta)
  have i: "snd (draw_desc_token P S G foreground e offset2 cr2)
              = snd (draw_image P cr2 None offset2 (desc_size S)
                       (desc_height S G - off_image_y offset2))"
    if "d_data e = None" and ty: "d_type e = DRAW_IMAGE"
    using draw_desc_token_image [OF ty] that(1) by simp
  have t: "snd (draw_desc_token P S G foreground e offset2 cr2)
              = cr2 @ [cairo_move_to (uint (off_x offset2)) (uint (off_y offset2)),
                       cairo_set_source_rgb foreground,
                       cairo_select_font_face
                         (if d_type e = BOLD then CAIRO_FONT_WEIGHT_BOLD
                          else CAIRO_FONT_WEIGHT_NORMAL),
                       cairo_set_font_size (font_size S),
                       cairo_show_text None]"
    if null: "d_data e = None" and ty: "d_type e = BOLD \<or> d_type e = DRAW_TEXT \<or> d_type e = OTHER"
    by (simp add: draw_desc_token_text [OF ty] null Let_def draw_text_calls)
  show ?thesis
    using a b i t by blast
qed

theorem null_token_data_witness:
  "d_data (fst (parse_result_line platform0 [] ''!long'' (width settings0 - 25))) = None
   \<and> draw_line_loop (Suc (Suc (Suc 0))) platform0 settings0 white ''!long''
        \<lparr>off_x = 25, off_y = 35, off_image_y = 20\<rparr> []
      = Some (\<lparr>off_x = 25, off_y = 35, off_image_y = 20\<rparr>, [])
   \<and> parse_result_line platform0 [] ''!long'' (desc_size settings0 + width settings0 - 122)
      = (\<lparr>d_type = DRAW_TEXT, d_data = None\<rparr>, ''long'')
   \<and> draw_desc_loop (Suc (Suc (Suc 0))) platform0 settings0 global0 white ''!long''
        \<lparr>off_x = 122, off_y = 15, off_image_y = 0\<rparr> []
      = Some (\<lparr>off_x = 100, off_y = 30, off_image_y = 15\<rparr>,
              [cairo_move_to 122 15, cairo_set_source_rgb white,
               cairo_select_font_face CAIRO_FONT_WEIGHT_NORMAL, cairo_set_font_size 12,
               cairo_show_text None,
               cairo_move_to 122 15, cairo_set_source_rgb white,
               cairo_select_font_face CAIRO_FONT_WEIGHT_NORMAL, cairo_set_font_size 12,
               cairo_show_text (Some ''long'')])
   \<and> snd (draw_desc_token platform0 settings0 global0 white \<lparr>d_type = DRAW_TEXT, d_data = None\<rparr>
        \<lparr>off_x = 122, off_y = 15, off_image_y = 0\<rparr> [])
      = [cairo_move_to 122 15, cairo_set_source_rgb white,
         cairo_select_font_face CAIRO_FONT_WEIGHT_NORMAL, cairo_set_font_size 12,
         cairo_show_text None]"
proof -
  let ?o = "\<lparr>off_x = 25, off_y = 35, off_image_y = 20\<rparr>"
  let ?p = "\<lparr>off_x = 122, off_y = 15, off_image_y = 0\<rparr>"
  let ?d = "\<lparr>d_type = DRAW_TEXT, d_data = None\<rparr>"
  have ne: "''!long'' \<noteq> []"
    by simp
  have lt: "d_data (fst (parse_result_line platform0 [] ''!long'' (width settings0 - off_x ?o))) = None"
    by code_simp
  have dt: "parse_result_line platform0 [] ''!long'' (desc_size settings0 + width settings0 - off_x ?p)
      = (?d, ''long'')"
    by code_simp
  have null: "d_data ?d = None"
    by simp
  have val: "draw_desc_loop (Suc (Suc (Suc 0))) platform0 settings0 global0 white ''!long'' ?p []
      = Some (\<lparr>off_x = 100, off_y = 30, off_image_y = 15\<rparr>,
              [cairo_move_to 122 15, cairo_set_source_rgb white,
               cairo_select_font_face CAIRO_FONT_WEIGHT_NORMAL, cairo_set_font_size 12,
               cairo_show_text None,
               cairo_move_to 122 15, cairo_set_source_rgb white,
               cairo_select_font_face CAIRO_FONT_WEIGHT_NORMAL, cairo_set_font_size 12,
               cairo_show_text (Some ''long'')])"
    by code_simp
  have fs: "font_size settings0 = 12"
    by (simp add: settings0_def)
  show ?thesis
    using null_token_data [of "''!long''" platform0 "[]" settings0 ?o "Suc (Suc 0)" white
        "''!long''" "[]" ?p ?d "''long''" "Suc (Suc 0)" global0]
      ne lt dt null val fs
    by (simp del: draw_line_loop.simps draw_desc_loop.simps)
qed



section \<open>The size an image is scaled to\<close>

text \<open>
  C4. The claim reads: an image of natural size \<open>(w, h)\<close> that fits the box \<open>(W, H)\<close> keeps
  its size; any other is drawn at \<open>(w * s, h * s)\<close>, truncated, with \<open>s = min (W / w) (H / h)\<close>,
  so that both sides are scaled by one factor, the result never exceeds the box, and no
  image is enlarged. The factor and the products are rounded to single precision, so
  the size drawn is not the exactly scaled one: an image of 309 by 309 in a box of 200
  by 200 is drawn at 199 by 199, where \<open>309 * (200 / 309)\<close> is 200. And beyond 24 bits the
  box is not kept: \<open>W = 16777219\<close> is converted to 16777220, an image 33554440 wide is
  halved, and is drawn 16777220 wide.
\<close>

theorem scale_format_counterexample:
  "scale_format platform1 \<lparr>img_width = 309, img_height = 309\<rparr> 200 200
     = \<lparr>img_width = 199, img_height = 199\<rparr>
   \<and> \<lfloor>309 * min (200 / 309) (200 / 309 :: rat)\<rfloor> = 200
   \<and> scale_format platform1 \<lparr>img_width = 33554440, img_height = 10\<rparr> 16777219 100
     = \<lparr>img_width = 16777220, img_height = 5\<rparr>
   \<and> \<not> (16777220 :: u32) \<le> 16777219"
  by (simp add: scale_format_def platform1_def float_min_def rat_of_u32_def binary32_eval)


text \<open>
  C4, amended. On a platform whose \<^verbatim>\<open>float\<close> is binary32, for an image of natural size
  \<open>(w, h)\<close> with \<open>0 < w, h \<le> 2^24\<close> and a box \<open>(W, H)\<close> with \<open>W, H < 2^23\<close>: an image that fits
  the box keeps its size; any other is drawn at the truncated values of \<open>p * w\<close> and
  \<open>p * h\<close> rounded to single precision, for the one factor \<open>p\<close> that is the smaller of
  \<open>W / w\<close> and \<open>H / h\<close>, each rounded to single precision. In both cases the size drawn
  does not exceed the box and does not exceed the natural size.
\<close>

theorem scale_format_single_precision:
  assumes sp: "single_precision P"
    and pos: "0 < unat w" "0 < unat h"
    and img: "unat w \<le> 16777216" "unat h \<le> 16777216"
    and box: "unat W < 8388608" "unat H < 8388608"
    and res: "scale_format P \<lparr>img_width = w, img_height = h\<rparr> W H = format"
    and factor: "prop = min (binary32 (rat_of_u32 W / rat_of_u32 w))
                           (binary32 (rat_of_u32 H / rat_of_u32 h))"
  shows "(if w \<le> W \<and> h \<le> H
          then format = \<lparr>img_width = w, img_height = h\<rparr>
          else format = \<lparr>img_width = word_of_int \<lfloor>binary32 (prop * rat_of_u32 w)\<rfloor>,
                         img_height = word_of_int \<lfloor>binary32 (prop * rat_of_u32 h)\<rfloor>\<rparr>)
       \<and> img_width format \<le> W \<and> img_height format \<le> H
       \<and> img_width format \<le> w \<and> img_height format \<le> h"
proof (cases "w \<le> W \<and> h \<le> H")
  case True
  then have "format = \<lparr>img_width = w, img_height = h\<rparr>"
    using res unfolding scale_format_def by (auto simp: not_less)
  with True show ?thesis
    by simp
next
  case False
  let ?a = "binary32 (rat_of_u32 W / rat_of_u32 w)"
  let ?b = "binary32 (rat_of_u32 H / rat_of_u32 h)"
  have cond: "W < w \<or> H < h"
    using False by (auto simp: not_le)
  have ops: "float_of_u32 P = (\<lambda>w. binary32 (rat_of_u32 w))"
    "float_div P = (\<lambda>a b. binary32 (a / b))"
    "float_mul P = (\<lambda>a b. binary32 (a * b))"
    "float_less P = (\<lambda>a b. a < b)"
    "u32_of_float P = (\<lambda>x. word_of_int \<lfloor>x\<rfloor>)"
    using sp unfolding single_precision_def by simp_all
  have ex: "binary32 (rat_of_u32 w) = rat_of_u32 w" "binary32 (rat_of_u32 h) = rat_of_u32 h"
    "binary32 (rat_of_u32 W) = rat_of_u32 W" "binary32 (rat_of_u32 H) = rat_of_u32 H"
    using img box by (simp_all add: binary32_rat_of_u32)
  have pm: "float_min P ?a ?b = prop"
    unfolding float_min_def ops factor by (simp add: min_def not_less)
  have fmt: "format = \<lparr>img_width = word_of_int \<lfloor>binary32 (prop * rat_of_u32 w)\<rfloor>,
                         img_height = word_of_int \<lfloor>binary32 (prop * rat_of_u32 h)\<rfloor>\<rparr>"
    using res cond pm unfolding scale_format_def
    by (simp add: ops(1,2,3,5) ex Let_def)
  have a0: "0 \<le> ?a" and b0: "0 \<le> ?b"
    by (simp_all add: binary32_nonneg rat_of_u32_nonneg)
  then have p0: "0 \<le> prop"
    unfolding factor by simp
  have pa: "prop \<le> ?a" and pb: "prop \<le> ?b"
    unfolding factor by simp_all
  have p1: "prop \<le> 1"
  proof -
    from cond have "?a \<le> 1 \<or> ?b \<le> 1"
      by (auto intro: u32_factor_le_one)
    with pa pb show ?thesis
      by linarith
  qed
  have xw0: "0 \<le> binary32 (prop * rat_of_u32 w)" and xh0: "0 \<le> binary32 (prop * rat_of_u32 h)"
    using p0 by (simp_all add: binary32_nonneg rat_of_u32_nonneg)
  have w_box: "img_width format \<le> W"
    unfolding fmt using xw0 scaled_side_in_box [OF pos(1) box(1) p0 pa [unfolded rat_of_u32_def]]
    by (simp add: word_of_floor_le rat_of_u32_def del: of_nat_unat)
  have h_box: "img_height format \<le> H"
    unfolding fmt using xh0 scaled_side_in_box [OF pos(2) box(2) p0 pb [unfolded rat_of_u32_def]]
    by (simp add: word_of_floor_le rat_of_u32_def del: of_nat_unat)
  have w_nat: "img_width format \<le> w"
    unfolding fmt using xw0 scaled_side_not_larger [OF img(1) p0 p1]
    by (simp add: word_of_floor_le rat_of_u32_def del: of_nat_unat)
  have h_nat: "img_height format \<le> h"
    unfolding fmt using xh0 scaled_side_not_larger [OF img(2) p0 p1]
    by (simp add: word_of_floor_le rat_of_u32_def del: of_nat_unat)
  show ?thesis
    using False fmt w_box h_box w_nat h_nat by auto
qed

theorem scale_format_single_precision_witness:
  "single_precision platform1
   \<and> 0 < unat (800 :: u32) \<and> 0 < unat (600 :: u32)
   \<and> unat (800 :: u32) \<le> 16777216 \<and> unat (600 :: u32) \<le> 16777216
   \<and> unat (200 :: u32) < 8388608
   \<and> scale_format platform1 \<lparr>img_width = 800, img_height = 600\<rparr> 200 200
       = \<lparr>img_width = 200, img_height = 150\<rparr>
   \<and> min (binary32 (rat_of_u32 200 / rat_of_u32 800)) (binary32 (rat_of_u32 200 / rat_of_u32 600)) = 1 / 4
   \<and> \<not> ((800 :: u32) \<le> 200 \<and> (600 :: u32) \<le> 200)
   \<and> (200 :: u32) \<le> 200 \<and> (150 :: u32) \<le> 200 \<and> (200 :: u32) \<le> 800 \<and> (150 :: u32) \<le> 600"
proof -
  have pos: "0 < unat (800 :: u32)" "0 < unat (600 :: u32)"
    by simp_all
  have img: "unat (800 :: u32) \<le> 16777216" "unat (600 :: u32) \<le> 16777216"
    by simp_all
  have box: "unat (200 :: u32) < 8388608"
    by simp
  have res: "scale_format platform1 \<lparr>img_width = 800, img_height = 600\<rparr> 200 200
       = \<lparr>img_width = 200, img_height = 150\<rparr>"
    by (simp add: scale_format_def platform1_def float_min_def rat_of_u32_def binary32_eval)
  have factor: "1 / 4 = min (binary32 (rat_of_u32 200 / rat_of_u32 800))
                          (binary32 (rat_of_u32 200 / rat_of_u32 600))"
    by (simp add: rat_of_u32_def binary32_eval)
  show ?thesis
    using scale_format_single_precision [OF platform1_single pos img box box res factor]
      platform1_single res factor
    by simp
qed

end
